theory Spec2Isabelle
  imports Main "HOL-Library.Sublist" "HOL-Library.Multiset"
begin

section \<open>Constants of limit_reached.py\<close>

type_synonym address = string

definition ROOT_URL :: address where
  "ROOT_URL = ''https://justjoin.it/job-offers/warszawa/testing''"

definition CSV_OUTPUT :: string where
  "CSV_OUTPUT = ''JobResults.csv''"

definition MAX_RECORDS :: nat where
  "MAX_RECORDS = 150"

definition MAX_RETRY_FAILS :: nat where
  "MAX_RETRY_FAILS = 3"

definition TIMEOUT_TOTAL_SECONDS :: int where
  "TIMEOUT_TOTAL_SECONDS = 60"

definition TIMEOUT_DEEPER_SECONDS :: int where
  "TIMEOUT_DEEPER_SECONDS = 45"

section \<open>Data\<close>

text \<open>
  A job is the dictionary \<^verbatim>\<open>{"title": title, "url": url}\<close> built by
  \<^verbatim>\<open>extract_job_data\<close>.
\<close>

record job =
  title :: string
  url :: address

text \<open>
  The calls of \<^verbatim>\<open>logging\<close> in the source, one constructor for each message;
  the text of a caught exception is left out.
\<close>

datatype log_entry =
    ErrorWritingCsv
  | PageLoadTimeout
  | FailedToExtract
  | ErrorFindingLinks
  | OverallTimeout
  | Visiting nat address
  | Saved nat address
  | NotSaved nat address
  | DeeperTimeout nat
  | ErrorVisiting nat address
  | StartingRoot
  | CriticalError
  | Scraped nat
  | NoJobs

text \<open>
  What \<^verbatim>\<open>pd.DataFrame(data)\<close> holds for a list of dictionaries: the column
  labels are the keys of the dictionaries in the order of their first appearance, and
  each dictionary is one row. Every dictionary of the program has the keys
  \<^verbatim>\<open>title\<close> and \<^verbatim>\<open>url\<close>, in this order; the empty list has no key at all,
  so its frame has no column. \<^verbatim>\<open>to_csv(index=False)\<close> writes the column labels as
  the header line and then the rows; quoting is not modelled.
\<close>

record table =
  columns :: "string list"
  rows :: "string list list"

definition DataFrame :: "job list \<Rightarrow> table" where
  "DataFrame data =
     \<lparr>columns = (if data = [] then [] else [''title'', ''url'']),
      rows = map (\<lambda>j. [title j, url j]) data\<rparr>"

section \<open>The environment\<close>

text \<open>
  Everything outside the program (the browser, the clock, the random generator, the file
  system) is a state \<open>'w\<close> and one function of it per operation the source calls. An
  operation that can raise returns \<open>False\<close> (or \<open>None\<close>) when it does. Time is in
  seconds; the source's floats are only subtracted and compared.
  \<^item> \<open>time_time\<close>: \<^verbatim>\<open>time.time()\<close>; the world moves on with every reading.
  \<^item> \<open>goto\<close>: \<^verbatim>\<open>page.goto(link, wait_until="load", timeout=GLOBAL_TIMEOUT)\<close>.
  \<^item> \<open>wait_for_function\<close>: the wait for \<^verbatim>\<open>document.readyState === 'complete'\<close>.
  \<^item> \<open>wait_for_timeout\<close>: \<^verbatim>\<open>page.wait_for_timeout(3000)\<close>.
  \<^item> \<open>inner_text\<close>: \<^verbatim>\<open>page.locator("h1").inner_text(timeout=GLOBAL_TIMEOUT)\<close>.
  \<^item> \<open>page_url\<close>: the attribute \<^verbatim>\<open>page.url\<close>.
  \<^item> \<open>eval_on_selector_all\<close>: the query for the links with \<^verbatim>\<open>/job-offer/\<close>.
  \<^item> \<open>randbelow\<close>: the random generator behind \<^verbatim>\<open>random.shuffle\<close>.
  \<^item> \<open>sleep\<close>: the wait of tenacity between two attempts.
  \<^item> \<open>open_session\<close>: lines 121 to 124 (playwright, browser, context, page), none
    of them inside a \<^verbatim>\<open>try\<close>.
  \<^item> \<open>close_session\<close>: the \<^verbatim>\<open>finally\<close> of lines 142 to 144 and the end of the
    \<^verbatim>\<open>async with\<close>.
  \<^item> \<open>to_csv\<close>: \<^verbatim>\<open>df.to_csv(filename, index=False)\<close>.
\<close>

record 'w env =
  time_time :: "'w \<Rightarrow> int \<times> 'w"
  goto :: "address \<Rightarrow> 'w \<Rightarrow> bool \<times> 'w"
  wait_for_function :: "'w \<Rightarrow> bool \<times> 'w"
  wait_for_timeout :: "'w \<Rightarrow> bool \<times> 'w"
  inner_text :: "'w \<Rightarrow> string option \<times> 'w"
  page_url :: "'w \<Rightarrow> address"
  eval_on_selector_all :: "'w \<Rightarrow> address list option \<times> 'w"
  randbelow :: "nat \<Rightarrow> 'w \<Rightarrow> nat \<times> 'w"
  sleep :: "int \<Rightarrow> 'w \<Rightarrow> 'w"
  open_session :: "'w \<Rightarrow> bool \<times> 'w"
  close_session :: "'w \<Rightarrow> bool \<times> 'w"
  to_csv :: "string \<Rightarrow> table \<Rightarrow> 'w \<Rightarrow> bool \<times> 'w"

section \<open>The crawl state\<close>

text \<open>
  The objects \<^verbatim>\<open>scrape_jobs\<close> creates and passes by reference into every call, with
  the world and the log. \<open>calls\<close> is a history variable: the arguments of every
  invocation of \<^verbatim>\<open>process_links_recursively\<close> so far, in order. Nothing in the
  program reads it.
\<close>

record 'w crawl =
  world :: 'w
  visited_links :: "address set"
  unique_urls :: "address set"
  job_results :: "job list"
  last_save_time :: int
  logged :: "log_entry list"
  calls :: "(address \<times> nat) list"

definition logging :: "log_entry \<Rightarrow> 'w crawl \<Rightarrow> 'w crawl" where
  "logging e s = s\<lparr>logged := logged s @ [e]\<rparr>"

definition entered :: "address \<Rightarrow> nat \<Rightarrow> 'w crawl \<Rightarrow> 'w crawl" where
  "entered link depth s = s\<lparr>calls := calls s @ [(link, depth)]\<rparr>"

section \<open>Page load, extraction and link discovery\<close>

text \<open>
  \<^verbatim>\<open>wait_for_page_load\<close> (lines 40 to 46): both waits are inside the \<^verbatim>\<open>try\<close>;
  when the first raises, the second is skipped and the warning is logged.
\<close>

definition wait_for_page_load :: "'w env \<Rightarrow> 'w crawl \<Rightarrow> 'w crawl" where
  "wait_for_page_load env s =
     (case wait_for_function env (world s) of
        (False, w1) \<Rightarrow> logging PageLoadTimeout (s\<lparr>world := w1\<rparr>)
      | (True, w1) \<Rightarrow>
          (case wait_for_timeout env w1 of
             (False, w2) \<Rightarrow> logging PageLoadTimeout (s\<lparr>world := w2\<rparr>)
           | (True, w2) \<Rightarrow> s\<lparr>world := w2\<rparr>))"

text \<open>What one call of a decorated function gives tenacity: a value, or an exception.\<close>

datatype 'a attempt = Raised | Value 'a

text \<open>The body of \<^verbatim>\<open>extract_job_data\<close> (lines 52 to 59), without its decorator.\<close>

definition extract_job_data_body :: "'w env \<Rightarrow> 'w crawl \<Rightarrow> job option attempt \<times> 'w crawl" where
  "extract_job_data_body env s =
     (let s1 = wait_for_page_load env s in
      case inner_text env (world s1) of
        (None, w) \<Rightarrow> (Value None, logging FailedToExtract (s1\<lparr>world := w\<rparr>))
      | (Some t, w) \<Rightarrow> (Value (Some \<lparr>title = t, url = page_url env w\<rparr>), s1\<lparr>world := w\<rparr>))"

text \<open>The body of \<^verbatim>\<open>find_job_links\<close> (lines 65 to 73), without its decorator.\<close>

definition find_job_links_body :: "'w env \<Rightarrow> 'w crawl \<Rightarrow> address list attempt \<times> 'w crawl" where
  "find_job_links_body env s =
     (let s1 = wait_for_page_load env s in
      case eval_on_selector_all env (world s1) of
        (None, w) \<Rightarrow> (Value [], logging ErrorFindingLinks (s1\<lparr>world := w\<rparr>))
      | (Some links, w) \<Rightarrow> (Value links, s1\<lparr>world := w\<rparr>))"

text \<open>
  tenacity's \<^verbatim>\<open>wait_exponential(multiplier=1, min=2, max=10)\<close> after attempt \<open>k\<close>:
  \<^verbatim>\<open>max(max(0, min), min(multiplier * 2 ** (k - 1), max))\<close>.
\<close>

definition wait_exponential :: "nat \<Rightarrow> int" where
  "wait_exponential k = max (max 0 2) (min (1 * 2 ^ (k - 1)) 10)"

text \<open>
  The decorator \<^verbatim>\<open>@retry(stop=stop_after_attempt(MAX_RETRY_FAILS), wait=...)\<close>:
  attempt \<open>k\<close> calls the function; a value is returned as it is; an exception is retried
  after the wait, unless \<open>k\<close> has reached \<^verbatim>\<open>MAX_RETRY_FAILS\<close>, when tenacity raises
  its \<^verbatim>\<open>RetryError\<close>.
\<close>

function retry :: "'w env \<Rightarrow> ('w crawl \<Rightarrow> 'a attempt \<times> 'w crawl) \<Rightarrow> nat \<Rightarrow> 'w crawl
    \<Rightarrow> 'a attempt \<times> 'w crawl" where
  "retry env f k s =
     (case f s of
        (Value v, s') \<Rightarrow> (Value v, s')
      | (Raised, s') \<Rightarrow>
          (if MAX_RETRY_FAILS \<le> k then (Raised, s')
           else retry env f (Suc k) (s'\<lparr>world := sleep env (wait_exponential k) (world s')\<rparr>)))"
  by pat_completeness auto
termination
  by (relation "measure (\<lambda>(env, f, k, s). MAX_RETRY_FAILS - k)") auto

definition extract_job_data :: "'w env \<Rightarrow> 'w crawl \<Rightarrow> job option attempt \<times> 'w crawl" where
  "extract_job_data env s = retry env (extract_job_data_body env) 1 s"

definition find_job_links :: "'w env \<Rightarrow> 'w crawl \<Rightarrow> address list attempt \<times> 'w crawl" where
  "find_job_links env s = retry env (find_job_links_body env) 1 s"

declare retry.simps [simp del]

section \<open>The shuffle\<close>

text \<open>
  \<^verbatim>\<open>random.shuffle(x)\<close> of the standard library: for \<open>i\<close> from \<open>len(x) - 1\<close>
  down to 1, \<open>j = randbelow(i + 1)\<close> and \<open>x[i], x[j] = x[j], x[i]\<close>. The generator's
  number is taken modulo \<open>i + 1\<close>, the range it promises.
\<close>

fun shuffle_from :: "'w env \<Rightarrow> nat \<Rightarrow> 'a list \<Rightarrow> 'w \<Rightarrow> 'a list \<times> 'w" where
  "shuffle_from env 0 x w = (x, w)"
| "shuffle_from env (Suc i) x w =
     (case randbelow env (Suc i + 1) w of
        (r, w') \<Rightarrow>
          (let j = r mod (Suc i + 1) in
           shuffle_from env i (x[Suc i := x ! j, j := x ! Suc i]) w'))"

definition shuffle :: "'w env \<Rightarrow> 'a list \<Rightarrow> 'w \<Rightarrow> 'a list \<times> 'w" where
  "shuffle env x w = shuffle_from env (length x - 1) x w"

section \<open>The recursive explorer\<close>

text \<open>Lines 87 to 93: the record is saved when there is one and its url is new.\<close>

definition save_job :: "'w env \<Rightarrow> address \<Rightarrow> nat \<Rightarrow> job option \<Rightarrow> 'w crawl \<Rightarrow> 'w crawl" where
  "save_job env link depth job_data s =
     (case job_data of
        None \<Rightarrow> logging (NotSaved depth link) s
      | Some j \<Rightarrow>
          (if url j \<notin> unique_urls s then
             (case time_time env (world s) of
                (t, w) \<Rightarrow>
                  logging (Saved depth link)
                    (s\<lparr>job_results := job_results s @ [j],
                      unique_urls := insert (url j) (unique_urls s),
                      last_save_time := t,
                      world := w\<rparr>))
           else logging (NotSaved depth link) s))"

text \<open>
  Lines 96 to 98: the start of the deeper budget is read from the clock, then the links
  are discovered, then shuffled. \<open>Inl\<close> is an exception leaving the \<^verbatim>\<open>try\<close>.
\<close>

definition discover :: "'w env \<Rightarrow> 'w crawl \<Rightarrow> 'w crawl + (int \<times> address list \<times> 'w crawl)" where
  "discover env s =
     (case time_time env (world s) of
        (deeper_start_time, w) \<Rightarrow>
          (case find_job_links env (s\<lparr>world := w\<rparr>) of
             (Raised, s1) \<Rightarrow> Inl s1
           | (Value links, s1) \<Rightarrow>
               (case shuffle env links (world s1) of
                  (deeper_links, w') \<Rightarrow> Inr (deeper_start_time, deeper_links, s1\<lparr>world := w'\<rparr>))))"

text \<open>Lines 83 to 98: the part of the \<^verbatim>\<open>try\<close> before the loop.\<close>

definition visit_node :: "'w env \<Rightarrow> address \<Rightarrow> nat \<Rightarrow> 'w crawl
    \<Rightarrow> 'w crawl + (int \<times> address list \<times> 'w crawl)" where
  "visit_node env link depth s =
     (case goto env link (world (logging (Visiting depth link) s)) of
        (False, w) \<Rightarrow> Inl ((logging (Visiting depth link) s)\<lparr>world := w\<rparr>)
      | (True, w) \<Rightarrow>
          (case extract_job_data env ((logging (Visiting depth link) s)\<lparr>world := w\<rparr>) of
             (Raised, s1) \<Rightarrow> Inl s1
           | (Value job_data, s1) \<Rightarrow> discover env (save_job env link depth job_data s1)))"

text \<open>
  A run either returns or is cut off when the recursion is deeper than the fuel; both
  carry the state reached. The cut is at the entry of the invocation that does not fit,
  after the history has noted it.
\<close>

datatype 'a outcome = Returned 'a | OutOfFuel 'a

fun state_of :: "'a outcome \<Rightarrow> 'a" where
  "state_of (Returned s) = s"
| "state_of (OutOfFuel s) = s"

text \<open>
  \<^verbatim>\<open>process_links_recursively\<close> (lines 76 to 110) and its \<^verbatim>\<open>for\<close> loop (lines 100
  to 107). The loop has the depth of its node and the start of its budget.
\<close>

fun process_links_recursively :: "nat \<Rightarrow> 'w env \<Rightarrow> address \<Rightarrow> nat \<Rightarrow> 'w crawl \<Rightarrow> 'w crawl outcome"
  and deeper_loop :: "nat \<Rightarrow> 'w env \<Rightarrow> nat \<Rightarrow> int \<Rightarrow> address list \<Rightarrow> 'w crawl \<Rightarrow> 'w crawl outcome"
  where
  "process_links_recursively 0 env link depth s = OutOfFuel (entered link depth s)"
| "process_links_recursively (Suc n) env link depth s =
     (case time_time env (world s) of
        (t, w) \<Rightarrow>
          (if t - last_save_time s > TIMEOUT_TOTAL_SECONDS then
             Returned (logging OverallTimeout ((entered link depth s)\<lparr>world := w\<rparr>))
           else
             (case visit_node env link depth ((entered link depth s)\<lparr>world := w\<rparr>) of
                Inl s' \<Rightarrow> Returned (logging (ErrorVisiting depth link) s')
              | Inr (deeper_start_time, deeper_links, s') \<Rightarrow>
                  deeper_loop n env depth deeper_start_time deeper_links s')))"
| "deeper_loop n env depth deeper_start_time [] s = Returned s"
| "deeper_loop n env depth deeper_start_time (deeper_link # rest) s =
     (case time_time env (world s) of
        (t, w) \<Rightarrow>
          (if t - deeper_start_time > TIMEOUT_DEEPER_SECONDS then
             Returned (logging (DeeperTimeout depth) (s\<lparr>world := w\<rparr>))
           else if deeper_link \<notin> visited_links s then
             (case process_links_recursively n env deeper_link (depth + 1)
                     (s\<lparr>world := w, visited_links := insert deeper_link (visited_links s)\<rparr>) of
                OutOfFuel s' \<Rightarrow> OutOfFuel s'
              | Returned s' \<Rightarrow> deeper_loop n env depth deeper_start_time rest s')
           else deeper_loop n env depth deeper_start_time rest (s\<lparr>world := w\<rparr>)))"

section \<open>The root loop and the run\<close>

text \<open>The \<^verbatim>\<open>while\<close> loop of lines 132 to 137 over the root queue.\<close>

fun root_loop :: "nat \<Rightarrow> 'w env \<Rightarrow> address list \<Rightarrow> 'w crawl \<Rightarrow> 'w crawl outcome" where
  "root_loop n env [] s = Returned s"
| "root_loop n env (root_link # root_queue) s =
     (if length (job_results s) < MAX_RECORDS then
        (if root_link \<notin> visited_links s then
           (case process_links_recursively n env root_link 0
                   (s\<lparr>visited_links := insert root_link (visited_links s)\<rparr>) of
              OutOfFuel s' \<Rightarrow> OutOfFuel s'
            | Returned s' \<Rightarrow> root_loop n env root_queue s')
         else root_loop n env root_queue s)
      else Returned s)"

text \<open>\<^verbatim>\<open>write_to_csv\<close> (lines 31 to 37): the file written, if the write did not raise.\<close>

definition write_to_csv :: "'w env \<Rightarrow> job list \<Rightarrow> string \<Rightarrow> 'w crawl \<Rightarrow> table option \<times> 'w crawl" where
  "write_to_csv env data filename s =
     (case to_csv env filename (DataFrame data) (world s) of
        (True, w) \<Rightarrow> (Some (DataFrame data), s\<lparr>world := w\<rparr>)
      | (False, w) \<Rightarrow> (None, logging ErrorWritingCsv (s\<lparr>world := w\<rparr>)))"

text \<open>Lines 115 to 118: the state a run starts with.\<close>

definition initial :: "'w env \<Rightarrow> 'w \<Rightarrow> 'w crawl" where
  "initial env w0 =
     (case time_time env w0 of
        (t, w) \<Rightarrow>
          \<lparr>world = w, visited_links = {}, unique_urls = {}, job_results = [],
           last_save_time = t, logged = [], calls = []\<rparr>)"

text \<open>Lines 126 to 140: the \<^verbatim>\<open>try\<close> of \<^verbatim>\<open>scrape_jobs\<close> with its \<^verbatim>\<open>except\<close>.\<close>

definition root_exploration :: "nat \<Rightarrow> 'w env \<Rightarrow> 'w crawl \<Rightarrow> 'w crawl outcome" where
  "root_exploration n env s =
     (case goto env ROOT_URL (world (logging StartingRoot s)) of
        (False, w) \<Rightarrow> Returned (logging CriticalError ((logging StartingRoot s)\<lparr>world := w\<rparr>))
      | (True, w) \<Rightarrow>
          (case find_job_links env ((logging StartingRoot s)\<lparr>world := w\<rparr>) of
             (Raised, s1) \<Rightarrow> Returned (logging CriticalError s1)
           | (Value root_links, s1) \<Rightarrow> root_loop n env root_links s1))"

text \<open>Lines 146 to 151: the file is written in both branches.\<close>

definition persist :: "'w env \<Rightarrow> 'w crawl \<Rightarrow> table option \<times> 'w crawl" where
  "persist env s =
     (if job_results s \<noteq> [] then
        write_to_csv env (job_results s) CSV_OUTPUT (logging (Scraped (length (job_results s))) s)
      else write_to_csv env [] CSV_OUTPUT (logging NoJobs s))"

text \<open>
  How \<^verbatim>\<open>scrape_jobs\<close> ends: an exception left it (\<open>Crashed\<close>), the fuel was too
  small for the recursion (\<open>Unfinished\<close>), or it returned, with the file it wrote.
\<close>

datatype 'a run = Crashed 'a | Unfinished 'a | Finished 'a "table option"

definition scrape_jobs :: "nat \<Rightarrow> 'w env \<Rightarrow> 'w \<Rightarrow> 'w crawl run" where
  "scrape_jobs n env w0 =
     (case open_session env (world (initial env w0)) of
        (False, w) \<Rightarrow> Crashed ((initial env w0)\<lparr>world := w\<rparr>)
      | (True, w) \<Rightarrow>
          (case root_exploration n env ((initial env w0)\<lparr>world := w\<rparr>) of
             OutOfFuel s \<Rightarrow> Unfinished s
           | Returned s \<Rightarrow>
               (case close_session env (world s) of
                  (False, w') \<Rightarrow> Crashed (s\<lparr>world := w'\<rparr>)
                | (True, w') \<Rightarrow>
                    (case persist env (s\<lparr>world := w'\<rparr>) of
                       (csv, s') \<Rightarrow> Finished s' csv))))"

fun final_state :: "'a run \<Rightarrow> 'a" where
  "final_state (Crashed s) = s"
| "final_state (Unfinished s) = s"
| "final_state (Finished s csv) = s"

section \<open>Relations between states and invariants\<close>

definition page_step :: "'w crawl \<Rightarrow> 'w crawl \<Rightarrow> bool" where
  "page_step s s' \<longleftrightarrow>
     visited_links s' = visited_links s \<and> unique_urls s' = unique_urls s \<and>
     job_results s' = job_results s \<and> last_save_time s' = last_save_time s \<and>
     calls s' = calls s \<and> prefix (logged s) (logged s')"

definition node_step :: "'w crawl \<Rightarrow> 'w crawl \<Rightarrow> bool" where
  "node_step s s' \<longleftrightarrow>
     visited_links s' = visited_links s \<and> calls s' = calls s \<and>
     (job_results s' = job_results s \<and> unique_urls s' = unique_urls s \<and>
        last_save_time s' = last_save_time s
      \<or> (\<exists>j. url j \<notin> unique_urls s \<and> job_results s' = job_results s @ [j] \<and>
            unique_urls s' = insert (url j) (unique_urls s)))"

definition ledger_inv :: "'w crawl \<Rightarrow> bool" where
  "ledger_inv s \<longleftrightarrow>
     distinct (map url (job_results s)) \<and> unique_urls s = url ` set (job_results s)"

definition visit_inv :: "'w crawl \<Rightarrow> bool" where
  "visit_inv s \<longleftrightarrow>
     distinct (map fst (calls s)) \<and> fst ` set (calls s) \<subseteq> visited_links s"

text \<open>
  Nothing of the crawl state is taken back between two states of a run: the ledger and
  the history only get longer, the sets only grow, and the time of the last save is only
  replaced when a record is appended.
\<close>

definition retained :: "'w crawl \<Rightarrow> 'w crawl \<Rightarrow> bool" where
  "retained s s' \<longleftrightarrow>
     prefix (job_results s) (job_results s') \<and> unique_urls s \<subseteq> unique_urls s' \<and>
     visited_links s \<subseteq> visited_links s' \<and> prefix (calls s) (calls s') \<and>
     (job_results s' = job_results s \<longrightarrow> last_save_time s' = last_save_time s)"

text \<open>
  The ledger and the set of saved addresses in lockstep: the addresses of the records
  are the set, and there are as many records as addresses.
\<close>

definition lockstep :: "'w crawl \<Rightarrow> bool" where
  "lockstep s \<longleftrightarrow>
     unique_urls s = url ` set (job_results s) \<and>
     length (job_results s) = card (unique_urls s)"

text \<open>
  The overall deadline has passed in a state when the clock, read there, is more than
  \<^verbatim>\<open>TIMEOUT_TOTAL_SECONDS\<close> after the last save. A clock never goes back when a
  reading is never less than the reading before it. Between two states the crawl was
  idle when no record was saved, the time of the last save is the same, the only log
  lines added are the two timeout warnings, and the world was only changed by readings
  of the clock; the visited set may have grown.
\<close>

definition deadline_passed :: "'w env \<Rightarrow> 'w crawl \<Rightarrow> bool" where
  "deadline_passed env s \<longleftrightarrow>
     TIMEOUT_TOTAL_SECONDS < fst (time_time env (world s)) - last_save_time s"

definition clock_never_back :: "'w env \<Rightarrow> bool" where
  "clock_never_back env \<longleftrightarrow>
     (\<forall>w. fst (time_time env w) \<le> fst (time_time env (snd (time_time env w))))"

fun is_timeout :: "log_entry \<Rightarrow> bool" where
  "is_timeout OverallTimeout = True"
| "is_timeout (DeeperTimeout depth) = True"
| "is_timeout e = False"

definition idle :: "'w env \<Rightarrow> 'w crawl \<Rightarrow> 'w crawl \<Rightarrow> bool" where
  "idle env s s' \<longleftrightarrow>
     job_results s' = job_results s \<and> unique_urls s' = unique_urls s \<and>
     last_save_time s' = last_save_time s \<and> visited_links s \<subseteq> visited_links s' \<and>
     (\<exists>es. logged s' = logged s @ es \<and> list_all is_timeout es) \<and>
     (\<exists>k. world s' = ((\<lambda>w. snd (time_time env w)) ^^ k) (world s))"

section \<open>A simulated web, for concrete runs\<close>

text \<open>
  A world with a clock, the page the browser shows and the number of readings of the
  title so far; and a site: the links of each page, the pages whose load fails, how long
  the operations take, whether the wait for the ready state succeeds, and how many
  readings of the title fail before one succeeds.
\<close>

record sim =
  clock :: int
  current :: address
  reads :: nat

record site =
  links_of :: "address \<Rightarrow> address list"
  down :: "address \<Rightarrow> bool"
  goto_cost :: int
  ready_ok :: bool
  ready_cost :: int
  query_cost :: int
  flaky_reads :: nat

definition web :: "site \<Rightarrow> sim env" where
  "web st =
     \<lparr>time_time = (\<lambda>w. (clock w, w)),
      goto = (\<lambda>a w. (\<not> down st a, w\<lparr>clock := clock w + goto_cost st, current := a\<rparr>)),
      wait_for_function = (\<lambda>w. (ready_ok st, w\<lparr>clock := clock w + ready_cost st\<rparr>)),
      wait_for_timeout = (\<lambda>w. (True, w\<lparr>clock := clock w + 3\<rparr>)),
      inner_text = (\<lambda>w. (if reads w < flaky_reads st then None else Some (''Job '' @ current w),
                          w\<lparr>reads := Suc (reads w)\<rparr>)),
      page_url = current,
      eval_on_selector_all =
        (\<lambda>w. (Some (links_of st (current w)), w\<lparr>clock := clock w + query_cost st\<rparr>)),
      randbelow = (\<lambda>n w. (0, w)),
      sleep = (\<lambda>d w. w\<lparr>clock := clock w + d\<rparr>),
      open_session = (\<lambda>w. (True, w)),
      close_session = (\<lambda>w. (True, w)),
      to_csv = (\<lambda>f t w. (True, w))\<rparr>"

text \<open>The root page links to a and b, a links to b and c; every operation is quick.\<close>

definition small_site :: site where
  "small_site =
     \<lparr>links_of = (\<lambda>a. if a = ROOT_URL then [''a'', ''b'']
                       else if a = ''a'' then [''b'', ''c''] else []),
      down = (\<lambda>a. False), goto_cost = 1, ready_ok = True, ready_cost = 1, query_cost = 0,
      flaky_reads = 0\<rparr>"

definition world0 :: sim where
  "world0 = \<lparr>clock = 0, current = [], reads = 0\<rparr>"

text \<open>A state in the middle of a run: page a is shown, nothing visited or saved yet.\<close>

definition state0 :: "sim crawl" where
  "state0 = \<lparr>world = world0, visited_links = {}, unique_urls = {}, job_results = [],
          last_save_time = 0, logged = [], calls = []\<rparr>"




text \<open>A state with page a shown.\<close>

definition at_a :: "sim crawl" where
  "at_a = state0\<lparr>world := world0\<lparr>current := ''a''\<rparr>\<rparr>"

text \<open>
  Variants of the site: the first reading of a title fails; the wait for the ready state
  times out after 30 seconds; no page has a link.
\<close>

definition flaky_site :: site where
  "flaky_site = small_site\<lparr>flaky_reads := 1\<rparr>"

definition slow_site :: site where
  "slow_site = small_site\<lparr>ready_ok := False, ready_cost := 30\<rparr>"

definition empty_site :: site where
  "empty_site = small_site\<lparr>links_of := (\<lambda>a. [])\<rparr>"

text \<open>The site with every navigation taking 100 seconds: the deadline passes at once.\<close>

definition stalled_site :: site where
  "stalled_site = small_site\<lparr>goto_cost := 100\<rparr>"

text \<open>The site whose query for the links takes 50 seconds.\<close>

definition lazy_site :: site where
  "lazy_site = small_site\<lparr>query_cost := 50\<rparr>"

text \<open>
  The state in which the root loop starts on the site with slow navigation: the clock
  is at 104 and nothing was saved since 0.
\<close>

definition late_state :: "sim crawl" where
  "late_state = state0\<lparr>world := \<lparr>clock = 104, current = ROOT_URL, reads = 0\<rparr>,
                        logged := [StartingRoot]\<rparr>"

section \<open>Lemmas\<close>

lemma retry_value: "f s = (Value v, s') \<Longrightarrow> retry env f k s = (Value v, s')"
  by (subst retry.simps) simp

lemma extract_job_data_body_value: "\<exists>v s'. extract_job_data_body env s = (Value v, s')"
  by (simp add: extract_job_data_body_def Let_def split: prod.split option.split)

lemma extract_job_data_eq: "extract_job_data env s = extract_job_data_body env s"
proof -
  obtain v s' where "extract_job_data_body env s = (Value v, s')"
    using extract_job_data_body_value by blast
  then show ?thesis by (simp add: extract_job_data_def retry_value)
qed

lemma find_job_links_body_value: "\<exists>v s'. find_job_links_body env s = (Value v, s')"
  by (simp add: find_job_links_body_def Let_def split: prod.split option.split)

lemma find_job_links_eq: "find_job_links env s = find_job_links_body env s"
proof -
  obtain v s' where "find_job_links_body env s = (Value v, s')"
    using find_job_links_body_value by blast
  then show ?thesis by (simp add: find_job_links_def retry_value)
qed

lemma page_step_refl: "page_step s s"
  by (simp add: page_step_def)

lemma page_step_trans: "page_step a b \<Longrightarrow> page_step b c \<Longrightarrow> page_step a c"
  by (auto simp: page_step_def)

lemma page_step_world: "page_step s (s\<lparr>world := w\<rparr>)"
  by (simp add: page_step_def)

lemma page_step_logging: "page_step s (logging e s)"
  by (simp add: page_step_def logging_def)

lemma wait_for_page_load_step: "page_step s (wait_for_page_load env s)"
  by (simp add: wait_for_page_load_def page_step_def logging_def split: prod.split bool.split)

lemma extract_job_data_step: "extract_job_data env s = (r, s') \<Longrightarrow> page_step s s'"
  using wait_for_page_load_step [of s env]
  by (auto simp: extract_job_data_eq extract_job_data_body_def Let_def page_step_def logging_def
      split: prod.splits option.splits)

lemma find_job_links_step: "find_job_links env s = (r, s') \<Longrightarrow> page_step s s'"
  using wait_for_page_load_step [of s env]
  by (auto simp: find_job_links_eq find_job_links_body_def Let_def page_step_def logging_def
      split: prod.splits option.splits)

lemma page_step_node: "page_step s s' \<Longrightarrow> node_step s s'"
  by (simp add: page_step_def node_step_def)

lemma node_page_step: "node_step a b \<Longrightarrow> page_step b c \<Longrightarrow> node_step a c"
  by (auto simp: page_step_def node_step_def)

lemma page_node_step: "page_step a b \<Longrightarrow> node_step b c \<Longrightarrow> node_step a c"
  by (auto simp: page_step_def node_step_def)

lemma save_job_step: "node_step s (save_job env link depth job_data s)"
  by (auto simp: save_job_def node_step_def logging_def split: option.split prod.split)

lemma discover_step:
  "discover env s = Inl s' \<or> discover env s = Inr (t0, links, s') \<Longrightarrow> page_step s s'"
  unfolding discover_def
  by (auto split: prod.splits attempt.splits
      dest!: find_job_links_step simp: page_step_def)

lemma visit_node_step:
  assumes "visit_node env link depth s = Inl s' \<or> visit_node env link depth s = Inr (t0, links, s')"
  shows "node_step s s'"
proof (cases "goto env link (world (logging (Visiting depth link) s))")
  case (Pair ok w)
  let ?s0 = "(logging (Visiting depth link) s)\<lparr>world := w\<rparr>"
  have s0: "page_step s ?s0"
    by (simp add: page_step_def logging_def)
  show ?thesis
  proof (cases ok)
    case False
    with Pair assms have "s' = ?s0" by (simp add: visit_node_def)
    with s0 show ?thesis by (simp add: page_step_node)
  next
    case True
    obtain r s1 where ex: "extract_job_data env ?s0 = (r, s1)" by (cases "extract_job_data env ?s0")
    then have s1: "page_step s s1"
      using s0 extract_job_data_step page_step_trans by blast
    show ?thesis
    proof (cases r)
      case Raised
      with Pair True ex assms have "s' = s1" by (simp add: visit_node_def)
      with s1 show ?thesis by (simp add: page_step_node)
    next
      case (Value job_data)
      let ?s2 = "save_job env link depth job_data s1"
      from Pair True ex Value assms
      have "discover env ?s2 = Inl s' \<or> discover env ?s2 = Inr (t0, links, s')"
        by (simp add: visit_node_def)
      then have "page_step ?s2 s'" by (rule discover_step)
      moreover have "node_step s ?s2"
        using s1 save_job_step page_node_step by blast
      ultimately show ?thesis using node_page_step by blast
    qed
  qed
qed

text \<open>An invariant of the crawl: kept by every step of a node and by every scheduling.\<close>

lemma explorer_invariant:
  fixes P :: "'w crawl \<Rightarrow> bool"
  assumes step: "\<And>s s'. node_step s s' \<Longrightarrow> P s \<Longrightarrow> P s'"
    and sched: "\<And>s l d. P s \<Longrightarrow> l \<notin> visited_links s \<Longrightarrow>
                  P (entered l d (s\<lparr>visited_links := insert l (visited_links s)\<rparr>))"
  shows "P (entered link depth s) \<Longrightarrow> P (state_of (process_links_recursively n env link depth s))"
    and "P s \<Longrightarrow> P (state_of (deeper_loop n env depth t0 ls s))"
proof (induction n env link depth s and n env depth t0 ls s
    rule: process_links_recursively_deeper_loop.induct)
  case (1 env link depth s)
  then show ?case by simp
next
  case (2 n env link depth s)
  obtain t w where tw: "time_time env (world s) = (t, w)" by (cases "time_time env (world s)")
  let ?s0 = "(entered link depth s)\<lparr>world := w\<rparr>"
  have "node_step (entered link depth s) ?s0" by (simp add: node_step_def)
  with "2.prems" have P0: "P ?s0" using step by blast
  show ?case
  proof (cases "t - last_save_time s > TIMEOUT_TOTAL_SECONDS")
    case True
    have "node_step ?s0 (logging OverallTimeout ?s0)" by (simp add: node_step_def logging_def)
    with P0 have "P (logging OverallTimeout ?s0)" using step by blast
    with tw True show ?thesis by simp
  next
    case False
    show ?thesis
    proof (cases "visit_node env link depth ?s0")
      case (Inl s')
      then have "node_step ?s0 s'" using visit_node_step by blast
      moreover have "node_step s' (logging (ErrorVisiting depth link) s')"
        by (simp add: node_step_def logging_def)
      ultimately have "P (logging (ErrorVisiting depth link) s')" using P0 step by blast
      with tw False Inl show ?thesis by simp
    next
      case (Inr r)
      obtain t0 links s' where r: "r = (t0, links, s')" by (cases r)
      with Inr have "node_step ?s0 s'" using visit_node_step by blast
      with P0 have "P s'" using step by blast
      then have "P (state_of (deeper_loop n env depth t0 links s'))"
        using "2.IH" [OF tw [symmetric] False Inr r [symmetric] refl] by blast
      with tw False Inr r show ?thesis by simp
    qed
  qed
next
  case (3 n env depth t0 s)
  then show ?case by simp
next
  case (4 n env depth t0 l rest s)
  obtain t w where tw: "time_time env (world s) = (t, w)" by (cases "time_time env (world s)")
  have "node_step s (s\<lparr>world := w\<rparr>)" by (simp add: node_step_def)
  with "4.prems" have Pw: "P (s\<lparr>world := w\<rparr>)" using step by blast
  show ?case
  proof (cases "t - t0 > TIMEOUT_DEEPER_SECONDS")
    case True
    have "node_step (s\<lparr>world := w\<rparr>) (logging (DeeperTimeout depth) (s\<lparr>world := w\<rparr>))"
      by (simp add: node_step_def logging_def)
    with Pw have "P (logging (DeeperTimeout depth) (s\<lparr>world := w\<rparr>))" using step by blast
    with tw True show ?thesis by simp
  next
    case False
    show ?thesis
    proof (cases "l \<in> visited_links s")
      case True
      with tw False "4.IH"(3) Pw show ?thesis by simp
    next
      case notin: False
      let ?s1 = "s\<lparr>world := w, visited_links := insert l (visited_links s)\<rparr>"
      have "P (entered l (depth + 1) ?s1)"
        using sched [of "s\<lparr>world := w\<rparr>" l "depth + 1"] Pw notin by simp
      then have Pr: "P (state_of (process_links_recursively n env l (depth + 1) ?s1))"
        using "4.IH"(1) [OF tw [symmetric] False notin] by blast
      show ?thesis
      proof (cases "process_links_recursively n env l (depth + 1) ?s1")
        case (OutOfFuel s')
        with Pr tw False notin show ?thesis by simp
      next
        case (Returned s')
        with Pr have "P s'" by simp
        then have "P (state_of (deeper_loop n env depth t0 rest s'))"
          using "4.IH"(2) [OF tw [symmetric] False notin Returned] by blast
        with tw False notin Returned show ?thesis by simp
      qed
    qed
  qed
qed

lemma write_to_csv_step: "write_to_csv env data filename s = (csv, s') \<Longrightarrow> page_step s s'"
  by (auto simp: write_to_csv_def page_step_def logging_def split: prod.splits bool.splits)

lemma persist_step: "persist env s = (csv, s') \<Longrightarrow> page_step s s'"
  unfolding persist_def
  by (auto split: if_splits dest!: write_to_csv_step dest: append_prefixD
      simp: page_step_def logging_def)

lemma root_loop_invariant:
  fixes P :: "'w crawl \<Rightarrow> bool"
  assumes step: "\<And>s s'. node_step s s' \<Longrightarrow> P s \<Longrightarrow> P s'"
    and sched: "\<And>s l d. P s \<Longrightarrow> l \<notin> visited_links s \<Longrightarrow>
                  P (entered l d (s\<lparr>visited_links := insert l (visited_links s)\<rparr>))"
  shows "P s \<Longrightarrow> P (state_of (root_loop n env root_queue s))"
proof (induction root_queue arbitrary: s)
  case Nil
  then show ?case by simp
next
  case (Cons l q)
  show ?case
  proof (cases "length (job_results s) < MAX_RECORDS \<and> l \<notin> visited_links s")
    case False
    with Cons show ?thesis by auto
  next
    case True
    let ?s1 = "s\<lparr>visited_links := insert l (visited_links s)\<rparr>"
    have e: "P (entered l 0 ?s1)" using sched Cons.prems True by blast
    have Pr: "P (state_of (process_links_recursively n env l 0 ?s1))"
      by (rule explorer_invariant(1) [where P = P]) (blast intro: step sched e)+
    show ?thesis
    proof (cases "process_links_recursively n env l 0 ?s1")
      case (OutOfFuel s')
      with Pr True show ?thesis by simp
    next
      case (Returned s')
      with Pr have "P s'" by simp
      then have "P (state_of (root_loop n env q s'))" by (rule Cons.IH)
      with True Returned show ?thesis by simp
    qed
  qed
qed

lemma root_exploration_invariant:
  fixes P :: "'w crawl \<Rightarrow> bool"
  assumes step: "\<And>s s'. node_step s s' \<Longrightarrow> P s \<Longrightarrow> P s'"
    and sched: "\<And>s l d. P s \<Longrightarrow> l \<notin> visited_links s \<Longrightarrow>
                  P (entered l d (s\<lparr>visited_links := insert l (visited_links s)\<rparr>))"
    and P: "P s"
  shows "P (state_of (root_exploration n env s))"
proof (cases "goto env ROOT_URL (world (logging StartingRoot s))")
  case (Pair ok w)
  let ?s0 = "(logging StartingRoot s)\<lparr>world := w\<rparr>"
  have "node_step s ?s0" by (simp add: node_step_def logging_def)
  then have P0: "P ?s0" using step P by blast
  show ?thesis
  proof (cases ok)
    case False
    have "node_step ?s0 (logging CriticalError ?s0)" by (simp add: node_step_def logging_def)
    then have "P (logging CriticalError ?s0)" using step P0 by blast
    with Pair False show ?thesis by (simp add: root_exploration_def)
  next
    case True
    obtain r s1 where f: "find_job_links env ?s0 = (r, s1)" by (cases "find_job_links env ?s0")
    then have "node_step ?s0 s1" using find_job_links_step page_step_node by blast
    then have P1: "P s1" using step P0 by blast
    show ?thesis
    proof (cases r)
      case Raised
      have "node_step s1 (logging CriticalError s1)" by (simp add: node_step_def logging_def)
      then have "P (logging CriticalError s1)" using step P1 by blast
      with Pair True f Raised show ?thesis by (simp add: root_exploration_def)
    next
      case (Value root_links)
      have "P (state_of (root_loop n env root_links s1))"
        by (rule root_loop_invariant [where P = P]) (blast intro: step sched P1)+
      with Pair True f Value show ?thesis by (simp add: root_exploration_def)
    qed
  qed
qed

lemma scrape_jobs_invariant:
  fixes P :: "'w crawl \<Rightarrow> bool"
  assumes step: "\<And>s s'. node_step s s' \<Longrightarrow> P s \<Longrightarrow> P s'"
    and sched: "\<And>s l d. P s \<Longrightarrow> l \<notin> visited_links s \<Longrightarrow>
                  P (entered l d (s\<lparr>visited_links := insert l (visited_links s)\<rparr>))"
    and init: "P (initial env w0)"
  shows "P (final_state (scrape_jobs n env w0))"
proof (cases "open_session env (world (initial env w0))")
  case (Pair ok w)
  let ?s0 = "(initial env w0)\<lparr>world := w\<rparr>"
  have "node_step (initial env w0) ?s0" by (simp add: node_step_def)
  then have P0: "P ?s0" using step init by blast
  show ?thesis
  proof (cases ok)
    case False
    with Pair P0 show ?thesis by (simp add: scrape_jobs_def)
  next
    case True
    have Pr: "P (state_of (root_exploration n env ?s0))"
      by (rule root_exploration_invariant [where P = P]) (blast intro: step sched P0)+
    show ?thesis
    proof (cases "root_exploration n env ?s0")
      case (OutOfFuel s)
      with Pr Pair True show ?thesis by (simp add: scrape_jobs_def)
    next
      case (Returned s)
      with Pr have Ps: "P s" by simp
      obtain ok' w' where c: "close_session env (world s) = (ok', w')"
        by (cases "close_session env (world s)")
      have "node_step s (s\<lparr>world := w'\<rparr>)" by (simp add: node_step_def)
      then have Pc: "P (s\<lparr>world := w'\<rparr>)" using step Ps by blast
      show ?thesis
      proof (cases ok')
        case False
        with Pair True Returned c Pc show ?thesis by (simp add: scrape_jobs_def)
      next
        case ok: True
        obtain csv s' where p: "persist env (s\<lparr>world := w'\<rparr>) = (csv, s')"
          by (cases "persist env (s\<lparr>world := w'\<rparr>)")
        then have "node_step (s\<lparr>world := w'\<rparr>) s'" using persist_step page_step_node by blast
        then have "P s'" using step Pc by blast
        with Pair True Returned c ok p show ?thesis by (simp add: scrape_jobs_def)
      qed
    qed
  qed
qed

lemma ledger_inv_step: "node_step s s' \<Longrightarrow> ledger_inv s \<Longrightarrow> ledger_inv s'"
  by (auto simp: node_step_def ledger_inv_def)

lemma ledger_inv_sched:
  "ledger_inv s \<Longrightarrow> ledger_inv (entered l d (s\<lparr>visited_links := insert l (visited_links s)\<rparr>))"
  by (simp add: ledger_inv_def entered_def)

lemma ledger_inv_initial: "ledger_inv (initial env w0)"
  by (simp add: ledger_inv_def initial_def split: prod.split)

lemma visit_inv_step: "node_step s s' \<Longrightarrow> visit_inv s \<Longrightarrow> visit_inv s'"
  by (simp add: node_step_def visit_inv_def)

lemma visit_inv_sched:
  "visit_inv s \<Longrightarrow> l \<notin> visited_links s \<Longrightarrow>
     visit_inv (entered l d (s\<lparr>visited_links := insert l (visited_links s)\<rparr>))"
  by (auto simp: visit_inv_def entered_def)

lemma visit_inv_initial: "visit_inv (initial env w0)"
  by (simp add: visit_inv_def initial_def split: prod.split)

lemma ledger_inv_run: "ledger_inv (final_state (scrape_jobs n env w0))"
  by (rule scrape_jobs_invariant [where P = ledger_inv])
     (blast intro: ledger_inv_step ledger_inv_sched ledger_inv_initial)+

lemma visit_inv_run: "visit_inv (final_state (scrape_jobs n env w0))"
  by (rule scrape_jobs_invariant [where P = visit_inv])
     (blast intro: visit_inv_step visit_inv_sched visit_inv_initial)+

lemma retained_refl: "retained s s"
  by (simp add: retained_def)

lemma retained_step: "node_step s s' \<Longrightarrow> retained s0 s \<Longrightarrow> retained s0 s'"
  unfolding node_step_def retained_def
  by (elim conjE disjE exE) (auto simp: prefix_def)

lemma retained_sched:
  "retained s0 s \<Longrightarrow> retained s0 (entered l d (s\<lparr>visited_links := insert l (visited_links s)\<rparr>))"
  by (auto simp: retained_def entered_def prefix_def)

lemma retained_entered: "retained s (entered link depth s)"
  by (simp add: retained_def entered_def)

lemma retained_explorer:
  "retained s (state_of (process_links_recursively n env link depth s))"
  by (rule explorer_invariant(1) [where P = "retained s"])
     (blast intro: retained_step retained_sched retained_entered)+

lemma retained_deeper_loop:
  "retained s (state_of (deeper_loop n env depth t0 ls s))"
  by (rule explorer_invariant(2) [where P = "retained s"])
     (blast intro: retained_step retained_sched retained_refl)+

lemma retained_root_loop:
  "retained s (state_of (root_loop n env root_queue s))"
  by (rule root_loop_invariant [where P = "retained s"])
     (blast intro: retained_step retained_sched retained_refl)+

text \<open>The shuffle permutes its list.\<close>

lemma mset_shuffle_from: "i < length x \<Longrightarrow> mset (fst (shuffle_from env i x w)) = mset x"
proof (induction i arbitrary: x w)
  case 0
  then show ?case by simp
next
  case (Suc i)
  obtain r w' where rb: "randbelow env (Suc i + 1) w = (r, w')"
    by (cases "randbelow env (Suc i + 1) w")
  let ?j = "r mod (Suc i + 1)"
  let ?x = "x[Suc i := x ! ?j, ?j := x ! Suc i]"
  have "?j < Suc i + 1" by simp
  with Suc.prems have j: "?j < length x" by linarith
  have "mset ?x = mset x"
    using mset_swap [OF j Suc.prems] .
  moreover have "i < length ?x" using Suc.prems by simp
  then have "mset (fst (shuffle_from env i ?x w')) = mset ?x" by (rule Suc.IH)
  ultimately show ?case using rb by (simp add: Let_def)
qed

lemma mset_shuffle: "mset (fst (shuffle env x w)) = mset x"
proof (cases x)
  case Nil
  then show ?thesis by (simp add: shuffle_def)
next
  case (Cons a as)
  then have "length x - 1 < length x" by simp
  then show ?thesis unfolding shuffle_def by (rule mset_shuffle_from)
qed

lemma lockstep_step: "node_step s s' \<Longrightarrow> lockstep s \<Longrightarrow> lockstep s'"
proof -
  assume n: "node_step s s'" and l: "lockstep s"
  from l have "unique_urls s = url ` set (job_results s)" by (simp add: lockstep_def)
  then have fin: "finite (unique_urls s)" by simp
  from n consider "job_results s' = job_results s \<and> unique_urls s' = unique_urls s"
    | j where "url j \<notin> unique_urls s" "job_results s' = job_results s @ [j]"
        "unique_urls s' = insert (url j) (unique_urls s)"
    by (auto simp: node_step_def)
  then show "lockstep s'"
  proof cases
    case 1
    with l show ?thesis by (simp add: lockstep_def)
  next
    case 2
    with l fin show ?thesis by (auto simp: lockstep_def)
  qed
qed

lemma lockstep_page: "page_step s s' \<Longrightarrow> lockstep s \<Longrightarrow> lockstep s'"
  by (simp add: page_step_def lockstep_def)

lemma lockstep_sched:
  "lockstep s \<Longrightarrow> lockstep (entered l d (s\<lparr>visited_links := insert l (visited_links s)\<rparr>))"
  by (simp add: lockstep_def entered_def)

lemma lockstep_entered: "lockstep s \<Longrightarrow> lockstep (entered l d s)"
  by (simp add: lockstep_def entered_def)

lemma lockstep_initial: "lockstep (initial env w0)"
  by (simp add: lockstep_def initial_def split: prod.split)

lemma lockstep_run: "lockstep (final_state (scrape_jobs n env w0))"
  by (rule scrape_jobs_invariant [where P = lockstep])
    (blast intro: lockstep_step lockstep_sched lockstep_initial)+

lemma lockstep_explorer:
  "lockstep s \<Longrightarrow> lockstep (state_of (process_links_recursively n env link depth s))"
  by (rule explorer_invariant(1) [where P = lockstep])
    (blast intro: lockstep_step lockstep_sched lockstep_entered)+

lemma lockstep_deeper_loop:
  "lockstep s \<Longrightarrow> lockstep (state_of (deeper_loop n env depth t0 ls s))"
  by (rule explorer_invariant(2) [where P = lockstep])
    (blast intro: lockstep_step lockstep_sched)+

lemma lockstep_root_loop:
  "lockstep s \<Longrightarrow> lockstep (state_of (root_loop n env root_queue s))"
  by (rule root_loop_invariant [where P = lockstep])
    (blast intro: lockstep_step lockstep_sched)+

lemma lockstep_root_exploration:
  "lockstep s \<Longrightarrow> lockstep (state_of (root_exploration n env s))"
  by (rule root_exploration_invariant [where P = lockstep])
    (blast intro: lockstep_step lockstep_sched)+

lemma explorer_hands_over:
  assumes "time_time env (world s) = (t, w)"
    and "\<not> TIMEOUT_TOTAL_SECONDS < t - last_save_time s"
    and "goto env link w = (True, w1)"
    and "extract_job_data env ((logging (Visiting depth link) (entered link depth s))\<lparr>world := w1\<rparr>)
           = (Value job_data, s1)"
    and "time_time env (world (save_job env link depth job_data s1)) = (t0, w2)"
    and "find_job_links env ((save_job env link depth job_data s1)\<lparr>world := w2\<rparr>)
           = (Value found, s2)"
    and "shuffle env found (world s2) = (links, w3)"
  shows "process_links_recursively (Suc n) env link depth s =
           deeper_loop n env depth t0 links (s2\<lparr>world := w3\<rparr>)"
  using assms by (simp add: visit_node_def discover_def logging_def entered_def)





lemma idle_refl: "idle env s s"
  unfolding idle_def by (auto intro: exI [where x = 0] exI [where x = "[]"])

lemma idle_trans:
  assumes "idle env a b" and "idle env b c"
  shows "idle env a c"
proof -
  from assms obtain es1 es2 k1 k2 where
    l: "logged b = logged a @ es1" "list_all is_timeout es1"
       "logged c = logged b @ es2" "list_all is_timeout es2"
    and w: "world b = ((\<lambda>w. snd (time_time env w)) ^^ k1) (world a)"
           "world c = ((\<lambda>w. snd (time_time env w)) ^^ k2) (world b)"
    unfolding idle_def by blast
  from l have "logged c = logged a @ (es1 @ es2) \<and> list_all is_timeout (es1 @ es2)" by simp
  then have L: "\<exists>es. logged c = logged a @ es \<and> list_all is_timeout es" by blast
  from w have "world c = ((\<lambda>w. snd (time_time env w)) ^^ (k2 + k1)) (world a)"
    by (simp add: funpow_add)
  then have W: "\<exists>k. world c = ((\<lambda>w. snd (time_time env w)) ^^ k) (world a)" by blast
  from assms L W show ?thesis unfolding idle_def by auto
qed

lemma idle_tick:
  assumes "job_results s' = job_results s" "unique_urls s' = unique_urls s"
    "last_save_time s' = last_save_time s" "visited_links s \<subseteq> visited_links s'"
    "logged s' = logged s @ es" "list_all is_timeout es"
    "world s' = snd (time_time env (world s))"
  shows "idle env s s'"
proof -
  from assms(7) have "world s' = ((\<lambda>w. snd (time_time env w)) ^^ 1) (world s)" by simp
  then have "\<exists>k. world s' = ((\<lambda>w. snd (time_time env w)) ^^ k) (world s)" by blast
  with assms show ?thesis unfolding idle_def by blast
qed

lemma deadline_tick:
  assumes "clock_never_back env" "deadline_passed env s"
    "world s' = snd (time_time env (world s))" "last_save_time s' = last_save_time s"
  shows "deadline_passed env s'"
proof -
  from assms(1) have "fst (time_time env (world s)) \<le> fst (time_time env (snd (time_time env (world s))))"
    unfolding clock_never_back_def by blast
  with assms(2,3,4) show ?thesis unfolding deadline_passed_def by simp
qed

lemma fired_explorer:
  assumes "deadline_passed env s"
  shows "process_links_recursively (Suc n) env link depth s =
    Returned (logging OverallTimeout ((entered link depth s)\<lparr>world := snd (time_time env (world s))\<rparr>))"
  using assms by (cases "time_time env (world s)") (simp add: deadline_passed_def)

lemma idle_explorer:
  assumes c: "clock_never_back env" and d: "deadline_passed env s"
  shows "\<exists>s'. process_links_recursively (Suc n) env link depth s = Returned s' \<and>
           idle env s s' \<and> deadline_passed env s'"
proof -
  let ?s' = "logging OverallTimeout ((entered link depth s)\<lparr>world := snd (time_time env (world s))\<rparr>)"
  have "idle env s ?s'"
    by (rule idle_tick [where es = "[OverallTimeout]"]) (simp_all add: logging_def entered_def)
  moreover have "deadline_passed env ?s'"
    by (rule deadline_tick [OF c d]) (simp_all add: logging_def entered_def)
  ultimately show ?thesis using fired_explorer [OF d] by blast
qed

lemma idle_deeper_loop:
  assumes c: "clock_never_back env"
  shows "deadline_passed env s \<Longrightarrow>
    \<exists>s'. deeper_loop (Suc n) env depth t0 ls s = Returned s' \<and>
         idle env s s' \<and> deadline_passed env s'"
proof (induction ls arbitrary: s)
  case Nil
  then show ?case by (simp add: idle_refl)
next
  case (Cons l rest)
  obtain t w where tw: "time_time env (world s) = (t, w)" by (cases "time_time env (world s)")
  show ?case
  proof (cases "TIMEOUT_DEEPER_SECONDS < t - t0")
    case True
    let ?s' = "logging (DeeperTimeout depth) (s\<lparr>world := w\<rparr>)"
    have "idle env s ?s'"
      by (rule idle_tick [where es = "[DeeperTimeout depth]"]) (simp_all add: logging_def tw)
    moreover have "deadline_passed env ?s'"
      by (rule deadline_tick [OF c Cons.prems]) (simp_all add: logging_def tw)
    ultimately show ?thesis using tw True by simp
  next
    case False
    show ?thesis
    proof (cases "l \<in> visited_links s")
      case True
      let ?s1 = "s\<lparr>world := w\<rparr>"
      have i1: "idle env s ?s1"
        by (rule idle_tick [where es = "[]"]) (simp_all add: tw)
      have d1: "deadline_passed env ?s1"
        by (rule deadline_tick [OF c Cons.prems]) (simp_all add: tw)
      from Cons.IH [OF d1] obtain s' where
        r: "deeper_loop (Suc n) env depth t0 rest ?s1 = Returned s'"
          "idle env ?s1 s'" "deadline_passed env s'"
        by blast
      from i1 r(2) have "idle env s s'" by (rule idle_trans)
      with r tw False True show ?thesis
        by (simp del: process_links_recursively.simps)
    next
      case unvisited: False
      let ?s1 = "s\<lparr>world := w, visited_links := insert l (visited_links s)\<rparr>"
      have i1: "idle env s ?s1"
        by (rule idle_tick [where es = "[]"]) (auto simp: tw)
      have d1: "deadline_passed env ?s1"
        by (rule deadline_tick [OF c Cons.prems]) (simp_all add: tw)
      from idle_explorer [OF c d1] obtain s2 where
        e: "process_links_recursively (Suc n) env l (depth + 1) ?s1 = Returned s2"
          "idle env ?s1 s2" "deadline_passed env s2"
        by blast
      from Cons.IH [OF e(3)] obtain s' where
        r: "deeper_loop (Suc n) env depth t0 rest s2 = Returned s'"
          "idle env s2 s'" "deadline_passed env s'"
        by blast
      from i1 e(2) r(2) have "idle env s s'" by (blast intro: idle_trans)
      with r e tw False unvisited show ?thesis
        by (simp del: process_links_recursively.simps)
    qed
  qed
qed

lemma idle_root_loop:
  assumes c: "clock_never_back env"
  shows "deadline_passed env s \<Longrightarrow>
    \<exists>s'. root_loop (Suc n) env root_queue s = Returned s' \<and>
         idle env s s' \<and> deadline_passed env s'"
proof (induction root_queue arbitrary: s)
  case Nil
  then show ?case by (simp add: idle_refl)
next
  case (Cons l rest)
  show ?case
  proof (cases "length (job_results s) < MAX_RECORDS")
    case False
    with Cons.prems show ?thesis by (simp add: idle_refl)
  next
    case below: True
    show ?thesis
    proof (cases "l \<in> visited_links s")
      case True
      from Cons.IH [OF Cons.prems] below True show ?thesis
        by (simp del: process_links_recursively.simps)
    next
      case unvisited: False
      let ?s1 = "s\<lparr>visited_links := insert l (visited_links s)\<rparr>"
      have i1: "idle env s ?s1"
        unfolding idle_def by (auto intro: exI [where x = 0] exI [where x = "[]"])
      from Cons.prems have d1: "deadline_passed env ?s1"
        by (simp add: deadline_passed_def)
      from idle_explorer [OF c d1] obtain s2 where
        e: "process_links_recursively (Suc n) env l 0 ?s1 = Returned s2"
          "idle env ?s1 s2" "deadline_passed env s2"
        by blast
      from Cons.IH [OF e(3)] obtain s' where
        r: "root_loop (Suc n) env rest s2 = Returned s'"
          "idle env s2 s'" "deadline_passed env s'"
        by blast
      from i1 e(2) r(2) have "idle env s s'" by (blast intro: idle_trans)
      with r e below unvisited show ?thesis
        by (simp del: process_links_recursively.simps)
    qed
  qed
qed

section \<open>The claims\<close>

text \<open>
  C1. For every run and at every point during it, no two records in the result ledger
  \<^verbatim>\<open>job_results\<close> share the same address: a record is appended only when its
  address is absent from \<^verbatim>\<open>unique_urls\<close>, and the address is added to that set in
  the same step. The run is \<open>scrape_jobs\<close> with any environment and any fuel; a run
  cut off by its fuel ends in the state it had reached, so the first conjunct holds at
  every entry of the explorer too. The other conjuncts are the save step of lines 87
  to 90.
\<close>

theorem C1_no_two_records_share_an_address:
  "distinct (map url (job_results (final_state (scrape_jobs n env w0)))) \<and>
   job_results (save_job env link depth (Some j) s) =
     (if url j \<in> unique_urls s then job_results s else job_results s @ [j]) \<and>
   unique_urls (save_job env link depth (Some j) s) =
     (if url j \<in> unique_urls s then unique_urls s else insert (url j) (unique_urls s)) \<and>
   job_results (save_job env link depth None s) = job_results s \<and>
   unique_urls (save_job env link depth None s) = unique_urls s"
proof -
  have "distinct (map url (job_results (final_state (scrape_jobs n env w0))))"
    using ledger_inv_run [of n env w0] by (simp add: ledger_inv_def)
  moreover have "job_results (save_job env link depth (Some j) s) =
      (if url j \<in> unique_urls s then job_results s else job_results s @ [j])"
    by (simp add: save_job_def logging_def split: prod.split)
  moreover have "unique_urls (save_job env link depth (Some j) s) =
      (if url j \<in> unique_urls s then unique_urls s else insert (url j) (unique_urls s))"
    by (simp add: save_job_def logging_def split: prod.split)
  moreover have "job_results (save_job env link depth None s) = job_results s"
    by (simp add: save_job_def logging_def)
  moreover have "unique_urls (save_job env link depth None s) = unique_urls s"
    by (simp add: save_job_def logging_def)
  ultimately show ?thesis by blast
qed

text \<open>
  C9. At every point in a run, the set of addresses stored in the records of the ledger
  equals \<^verbatim>\<open>unique_urls\<close> exactly, and \<^verbatim>\<open>len(job_results) == len(unique_urls)\<close>:
  every append to the one is paired with an add to the other in the same step. The
  points of a run are those between its awaited operations; lines 88 to 90 have no
  await between them and are the one step \<open>save_job\<close>. First two conjuncts: both
  equalities hold in the state a run ends in, for any environment and any fuel; a run
  cut off by its fuel ends in the state it had on entering the explorer, so they hold at
  every entry of the explorer. Third: they hold in the state the run starts with.
  Fourth: from any state where they hold, they hold after the save step, after the wait
  for the page, after extraction, after link discovery, in the state a node hands to its
  loop or to the handler of line 110, and at the end of the explorer, of the loop of a
  node, of the root loop and of the root exploration. Fifth: the save step leaves both
  the ledger and the set as they were, or appends one record and adds its address,
  which was absent from the set. Then: the wait for the page, extraction and link
  discovery change neither. Last: the states a node goes through between its awaited
  operations (after extraction, after the save step, after link discovery) are all in
  lockstep when the state at its entry is, and the loop of the node starts from the
  last of them.
\<close>

theorem C9_ledger_and_unique_urls_in_lockstep:
  "unique_urls (final_state (scrape_jobs n env w0)) =
     url ` set (job_results (final_state (scrape_jobs n env w0))) \<and>
   length (job_results (final_state (scrape_jobs n env w0))) =
     card (unique_urls (final_state (scrape_jobs n env w0))) \<and>
   lockstep (initial env w0) \<and>
   (lockstep s \<longrightarrow>
      lockstep (save_job env link depth job_data s) \<and>
      lockstep (wait_for_page_load env s) \<and>
      lockstep (snd (extract_job_data env s)) \<and>
      lockstep (snd (find_job_links env s)) \<and>
      (discover env s = Inl s' \<or> discover env s = Inr (t0, ls, s') \<longrightarrow> lockstep s') \<and>
      (visit_node env link depth s = Inl s' \<or> visit_node env link depth s = Inr (t0, ls, s')
         \<longrightarrow> lockstep s') \<and>
      lockstep (state_of (process_links_recursively n env link depth s)) \<and>
      lockstep (state_of (deeper_loop n env depth t0 ls s)) \<and>
      lockstep (state_of (root_loop n env root_queue s)) \<and>
      lockstep (state_of (root_exploration n env s))) \<and>
   (job_results (save_job env link depth job_data s) = job_results s \<and>
      unique_urls (save_job env link depth job_data s) = unique_urls s \<or>
    (\<exists>j. job_data = Some j \<and> url j \<notin> unique_urls s \<and>
       job_results (save_job env link depth job_data s) = job_results s @ [j] \<and>
       unique_urls (save_job env link depth job_data s) = insert (url j) (unique_urls s))) \<and>
   job_results (wait_for_page_load env s) = job_results s \<and>
   unique_urls (wait_for_page_load env s) = unique_urls s \<and>
   job_results (snd (extract_job_data env s)) = job_results s \<and>
   unique_urls (snd (extract_job_data env s)) = unique_urls s \<and>
   job_results (snd (find_job_links env s)) = job_results s \<and>
   unique_urls (snd (find_job_links env s)) = unique_urls s \<and>
   (discover env s = Inl s' \<or> discover env s = Inr (t0, ls, s') \<longrightarrow>
      job_results s' = job_results s \<and> unique_urls s' = unique_urls s) \<and>
   (lockstep s \<and>
      time_time env (world s) = (t, w) \<and> \<not> TIMEOUT_TOTAL_SECONDS < t - last_save_time s \<and>
      goto env link w = (True, w1) \<and>
      extract_job_data env ((logging (Visiting depth link) (entered link depth s))\<lparr>world := w1\<rparr>)
        = (Value job_data, s1) \<and>
      time_time env (world (save_job env link depth job_data s1)) = (t0, w2) \<and>
      find_job_links env ((save_job env link depth job_data s1)\<lparr>world := w2\<rparr>)
        = (Value found, s2) \<and>
      shuffle env found (world s2) = (ls, w3) \<longrightarrow>
      lockstep s1 \<and> lockstep (save_job env link depth job_data s1) \<and> lockstep s2 \<and>
      process_links_recursively (Suc n) env link depth s =
        deeper_loop n env depth t0 ls (s2\<lparr>world := w3\<rparr>))"
proof -
  let ?f = "final_state (scrape_jobs n env w0)"
  have run: "lockstep ?f" by (rule lockstep_run)
  have c1: "unique_urls ?f = url ` set (job_results ?f)"
    using run by (simp add: lockstep_def)
  have c2: "length (job_results ?f) = card (unique_urls ?f)"
    using run by (simp add: lockstep_def)
  have c3: "lockstep (initial env w0)" by (rule lockstep_initial)
  have w: "page_step s (wait_for_page_load env s)" by (rule wait_for_page_load_step)
  have e: "page_step s (snd (extract_job_data env s))"
    by (rule extract_job_data_step [of env s "fst (extract_job_data env s)"]) simp
  have f: "page_step s (snd (find_job_links env s))"
    by (rule find_job_links_step [of env s "fst (find_job_links env s)"]) simp
  have d: "discover env s = Inl s' \<or> discover env s = Inr (t0, ls, s') \<longrightarrow> page_step s s'"
    using discover_step by blast
  have v: "visit_node env link depth s = Inl s' \<or> visit_node env link depth s = Inr (t0, ls, s')
      \<longrightarrow> node_step s s'"
    using visit_node_step by blast
  have c4: "lockstep s \<longrightarrow>
      lockstep (save_job env link depth job_data s) \<and>
      lockstep (wait_for_page_load env s) \<and>
      lockstep (snd (extract_job_data env s)) \<and>
      lockstep (snd (find_job_links env s)) \<and>
      (discover env s = Inl s' \<or> discover env s = Inr (t0, ls, s') \<longrightarrow> lockstep s') \<and>
      (visit_node env link depth s = Inl s' \<or> visit_node env link depth s = Inr (t0, ls, s')
         \<longrightarrow> lockstep s') \<and>
      lockstep (state_of (process_links_recursively n env link depth s)) \<and>
      lockstep (state_of (deeper_loop n env depth t0 ls s)) \<and>
      lockstep (state_of (root_loop n env root_queue s)) \<and>
      lockstep (state_of (root_exploration n env s))"
    using w e f d v save_job_step [of s env link depth job_data]
    by (blast intro: lockstep_step lockstep_page lockstep_explorer lockstep_deeper_loop
        lockstep_root_loop lockstep_root_exploration)
  have c5: "job_results (save_job env link depth job_data s) = job_results s \<and>
      unique_urls (save_job env link depth job_data s) = unique_urls s \<or>
    (\<exists>j. job_data = Some j \<and> url j \<notin> unique_urls s \<and>
       job_results (save_job env link depth job_data s) = job_results s @ [j] \<and>
       unique_urls (save_job env link depth job_data s) = insert (url j) (unique_urls s))"
    by (cases job_data) (simp_all add: save_job_def logging_def split: prod.split)
  have c6: "job_results (wait_for_page_load env s) = job_results s"
    "unique_urls (wait_for_page_load env s) = unique_urls s"
    "job_results (snd (extract_job_data env s)) = job_results s"
    "unique_urls (snd (extract_job_data env s)) = unique_urls s"
    "job_results (snd (find_job_links env s)) = job_results s"
    "unique_urls (snd (find_job_links env s)) = unique_urls s"
    using w e f by (simp_all add: page_step_def)
  have c7: "discover env s = Inl s' \<or> discover env s = Inr (t0, ls, s') \<longrightarrow>
      job_results s' = job_results s \<and> unique_urls s' = unique_urls s"
    using d by (simp add: page_step_def)
  have c8: "lockstep s \<and>
      time_time env (world s) = (t, w) \<and> \<not> TIMEOUT_TOTAL_SECONDS < t - last_save_time s \<and>
      goto env link w = (True, w1) \<and>
      extract_job_data env ((logging (Visiting depth link) (entered link depth s))\<lparr>world := w1\<rparr>)
        = (Value job_data, s1) \<and>
      time_time env (world (save_job env link depth job_data s1)) = (t0, w2) \<and>
      find_job_links env ((save_job env link depth job_data s1)\<lparr>world := w2\<rparr>)
        = (Value found, s2) \<and>
      shuffle env found (world s2) = (ls, w3) \<longrightarrow>
      lockstep s1 \<and> lockstep (save_job env link depth job_data s1) \<and> lockstep s2 \<and>
      process_links_recursively (Suc n) env link depth s =
        deeper_loop n env depth t0 ls (s2\<lparr>world := w3\<rparr>)"
  proof (intro impI)
    assume a: "lockstep s \<and>
      time_time env (world s) = (t, w) \<and> \<not> TIMEOUT_TOTAL_SECONDS < t - last_save_time s \<and>
      goto env link w = (True, w1) \<and>
      extract_job_data env ((logging (Visiting depth link) (entered link depth s))\<lparr>world := w1\<rparr>)
        = (Value job_data, s1) \<and>
      time_time env (world (save_job env link depth job_data s1)) = (t0, w2) \<and>
      find_job_links env ((save_job env link depth job_data s1)\<lparr>world := w2\<rparr>)
        = (Value found, s2) \<and>
      shuffle env found (world s2) = (ls, w3)"
    let ?x = "(logging (Visiting depth link) (entered link depth s))\<lparr>world := w1\<rparr>"
    let ?sv = "save_job env link depth job_data s1"
    from a have "lockstep ?x" by (simp add: lockstep_def logging_def entered_def)
    moreover from a have "page_step ?x s1" using extract_job_data_step by blast
    ultimately have l1: "lockstep s1" by (blast intro: lockstep_page)
    have "node_step s1 ?sv" by (rule save_job_step)
    with l1 have l2: "lockstep ?sv" by (blast intro: lockstep_step)
    then have "lockstep (?sv\<lparr>world := w2\<rparr>)" by (simp add: lockstep_def)
    moreover from a have "page_step (?sv\<lparr>world := w2\<rparr>) s2" using find_job_links_step by blast
    ultimately have l3: "lockstep s2" by (blast intro: lockstep_page)
    from a have "process_links_recursively (Suc n) env link depth s =
        deeper_loop n env depth t0 ls (s2\<lparr>world := w3\<rparr>)"
      by (elim conjE) (rule explorer_hands_over; assumption)
    with l1 l2 l3 show "lockstep s1 \<and> lockstep (save_job env link depth job_data s1) \<and> lockstep s2 \<and>
      process_links_recursively (Suc n) env link depth s =
        deeper_loop n env depth t0 ls (s2\<lparr>world := w3\<rparr>)"
      by blast
  qed
  from c1 c2 c3 c4 c5 c6 c7 c8 show ?thesis by blast
qed

theorem C9_witness:
  "lockstep state0 \<and>
   save_job (web small_site) ''a'' 0 (Some \<lparr>title = ''Job a'', url = ''a''\<rparr>) state0 =
     state0\<lparr>job_results := [\<lparr>title = ''Job a'', url = ''a''\<rparr>], unique_urls := {''a''},
       logged := [Saved 0 ''a'']\<rparr> \<and>
   lockstep (save_job (web small_site) ''a'' 0 (Some \<lparr>title = ''Job a'', url = ''a''\<rparr>) state0) \<and>
   lockstep (state_of (process_links_recursively 2 (web small_site) ''a'' 0 state0)) \<and>
   map url (job_results (state_of (process_links_recursively 2 (web small_site) ''a'' 0 state0))) =
     [''a'', ''c'', ''b''] \<and>
   unique_urls (state_of (process_links_recursively 2 (web small_site) ''a'' 0 state0)) =
     {''a'', ''b'', ''c''} \<and>
   lockstep
     \<lparr>world = \<lparr>clock = 5, current = ''a'', reads = 1\<rparr>, visited_links = {},
      unique_urls = {''a''}, job_results = [\<lparr>title = ''Job a'', url = ''a''\<rparr>],
      last_save_time = 5, logged = [Visiting 0 ''a'', Saved 0 ''a''], calls = [(''a'', 0)]\<rparr> \<and>
   process_links_recursively 2 (web small_site) ''a'' 0 state0 =
     deeper_loop 1 (web small_site) 0 5 [''c'', ''b'']
       \<lparr>world = \<lparr>clock = 9, current = ''a'', reads = 1\<rparr>, visited_links = {},
        unique_urls = {''a''}, job_results = [\<lparr>title = ''Job a'', url = ''a''\<rparr>],
        last_save_time = 5, logged = [Visiting 0 ''a'', Saved 0 ''a''], calls = [(''a'', 0)]\<rparr>"
proof -
  let ?ja = "\<lparr>title = ''Job a'', url = ''a''\<rparr>"
  let ?w1 = "\<lparr>clock = 1, current = ''a'', reads = 0\<rparr>"
  let ?w5 = "\<lparr>clock = 5, current = ''a'', reads = 1\<rparr>"
  let ?w9 = "\<lparr>clock = 9, current = ''a'', reads = 1\<rparr>"
  let ?s1 = "\<lparr>world = ?w5, visited_links = {}, unique_urls = {}, job_results = [],
        last_save_time = 0, logged = [Visiting 0 ''a''], calls = [(''a'', 0)]\<rparr>"
  let ?sv = "\<lparr>world = ?w5, visited_links = {}, unique_urls = {''a''}, job_results = [?ja],
        last_save_time = 5, logged = [Visiting 0 ''a'', Saved 0 ''a''], calls = [(''a'', 0)]\<rparr>"
  let ?s2 = "\<lparr>world = ?w9, visited_links = {}, unique_urls = {''a''}, job_results = [?ja],
        last_save_time = 5, logged = [Visiting 0 ''a'', Saved 0 ''a''], calls = [(''a'', 0)]\<rparr>"
  have h: "lockstep state0" by (simp add: lockstep_def state0_def)
  have s: "save_job (web small_site) ''a'' 0 (Some \<lparr>title = ''Job a'', url = ''a''\<rparr>) state0 =
     state0\<lparr>job_results := [\<lparr>title = ''Job a'', url = ''a''\<rparr>], unique_urls := {''a''},
       logged := [Saved 0 ''a'']\<rparr>"
    by (simp add: save_job_def state0_def world0_def web_def logging_def)
  have r: "map url (job_results (state_of (process_links_recursively 2 (web small_site) ''a'' 0 state0))) =
     [''a'', ''c'', ''b'']"
    "unique_urls (state_of (process_links_recursively 2 (web small_site) ''a'' 0 state0)) =
     {''a'', ''b'', ''c''}"
    by code_simp+
  have a: "lockstep (save_job (web small_site) ''a'' 0 (Some \<lparr>title = ''Job a'', url = ''a''\<rparr>) state0)"
    using C9_ledger_and_unique_urls_in_lockstep
      [where s = state0 and env = "web small_site" and link = "''a''" and depth = 0
        and job_data = "Some \<lparr>title = ''Job a'', url = ''a''\<rparr>"] h
    by blast
  have b: "lockstep (state_of (process_links_recursively 2 (web small_site) ''a'' 0 state0))"
    using C9_ledger_and_unique_urls_in_lockstep
      [where s = state0 and env = "web small_site" and link = "''a''" and depth = 0 and n = 2] h
    by blast
  have p: "time_time (web small_site) (world state0) = (0, world0) \<and>
      \<not> TIMEOUT_TOTAL_SECONDS < 0 - last_save_time state0 \<and>
      goto (web small_site) ''a'' world0 = (True, ?w1) \<and>
      extract_job_data (web small_site)
          ((logging (Visiting 0 ''a'') (entered ''a'' 0 state0))\<lparr>world := ?w1\<rparr>)
        = (Value (Some ?ja), ?s1) \<and>
      time_time (web small_site) (world (save_job (web small_site) ''a'' 0 (Some ?ja) ?s1)) = (5, ?w5) \<and>
      find_job_links (web small_site)
          ((save_job (web small_site) ''a'' 0 (Some ?ja) ?s1)\<lparr>world := ?w5\<rparr>)
        = (Value [''b'', ''c''], ?s2) \<and>
      shuffle (web small_site) [''b'', ''c''] (world ?s2) = ([''c'', ''b''], ?w9)"
    by code_simp
  have sv: "save_job (web small_site) ''a'' 0 (Some ?ja) ?s1 = ?sv"
    by code_simp
  have c: "lockstep (save_job (web small_site) ''a'' 0 (Some ?ja) ?s1) \<and>
      process_links_recursively (Suc 1) (web small_site) ''a'' 0 state0 =
        deeper_loop 1 (web small_site) 0 5 [''c'', ''b''] (?s2\<lparr>world := ?w9\<rparr>)"
    using C9_ledger_and_unique_urls_in_lockstep
      [where s = state0 and env = "web small_site" and link = "''a''" and depth = 0 and n = 1
        and t = 0 and w = world0 and ?w1.0 = ?w1 and job_data = "Some ?ja" and ?s1.0 = ?s1
        and ?t0.0 = 5 and ?w2.0 = ?w5 and found = "[''b'', ''c'']" and ?s2.0 = ?s2
        and ls = "[''c'', ''b'']" and ?w3.0 = ?w9]
      h p
    by blast
  from c sv have c1: "lockstep ?sv" by simp
  from c have c2: "process_links_recursively 2 (web small_site) ''a'' 0 state0 =
        deeper_loop 1 (web small_site) 0 5 [''c'', ''b''] ?s2"
    by (simp add: numeral_2_eq_2 del: process_links_recursively.simps)
  from h s r a b c1 c2 show ?thesis by blast
qed

text \<open>
  C4. The visited set only grows over the whole run, an address is added the instant it
  is scheduled for exploration (before the explorer is invoked, not after completion),
  and the recursive explorer is invoked on every address at most once per run. The
  first three conjuncts are the growth, through the explorer and both loops. The next
  two are about the history of invocations at the end of any run, and at any point where
  a run is cut off on entering the explorer: no address occurs twice, and every address
  the explorer was entered with is in the visited set. The last two show the order in
  both loops: with no fuel the run stops on entering the explorer, and the address is
  in the visited set already.
\<close>

theorem C4_visited_set_grows_and_each_address_is_explored_once:
  "visited_links s \<subseteq> visited_links (state_of (process_links_recursively n env link depth s)) \<and>
   visited_links s \<subseteq> visited_links (state_of (deeper_loop n env depth t0 ls s)) \<and>
   visited_links s \<subseteq> visited_links (state_of (root_loop n env root_queue s)) \<and>
   distinct (map fst (calls (final_state (scrape_jobs n env w)))) \<and>
   fst ` set (calls (final_state (scrape_jobs n env w)))
     \<subseteq> visited_links (final_state (scrape_jobs n env w)) \<and>
   (length (job_results s) < MAX_RECORDS \<and> l \<notin> visited_links s \<longrightarrow>
      root_loop 0 env (l # root_queue) s =
        OutOfFuel (entered l 0 (s\<lparr>visited_links := insert l (visited_links s)\<rparr>))) \<and>
   (time_time env (world s) = (t, w') \<and> \<not> TIMEOUT_DEEPER_SECONDS < t - t0 \<and>
      l \<notin> visited_links s \<longrightarrow>
      deeper_loop 0 env depth t0 (l # ls) s =
        OutOfFuel (entered l (depth + 1)
          (s\<lparr>world := w', visited_links := insert l (visited_links s)\<rparr>)))"
proof -
  have "visited_links s \<subseteq> visited_links (state_of (process_links_recursively n env link depth s))"
    using retained_explorer [of s n env link depth] by (simp add: retained_def)
  moreover have "visited_links s \<subseteq> visited_links (state_of (deeper_loop n env depth t0 ls s))"
    using retained_deeper_loop [of s n env depth t0 ls] by (simp add: retained_def)
  moreover have "visited_links s \<subseteq> visited_links (state_of (root_loop n env root_queue s))"
    using retained_root_loop [of s n env root_queue] by (simp add: retained_def)
  moreover have "distinct (map fst (calls (final_state (scrape_jobs n env w))))"
    and "fst ` set (calls (final_state (scrape_jobs n env w)))
      \<subseteq> visited_links (final_state (scrape_jobs n env w))"
    using visit_inv_run [of n env w] by (simp_all add: visit_inv_def)
  moreover have "length (job_results s) < MAX_RECORDS \<and> l \<notin> visited_links s \<longrightarrow>
      root_loop 0 env (l # root_queue) s =
        OutOfFuel (entered l 0 (s\<lparr>visited_links := insert l (visited_links s)\<rparr>))"
    by simp
  moreover have "time_time env (world s) = (t, w') \<and> \<not> TIMEOUT_DEEPER_SECONDS < t - t0 \<and>
      l \<notin> visited_links s \<longrightarrow>
      deeper_loop 0 env depth t0 (l # ls) s =
        OutOfFuel (entered l (depth + 1)
          (s\<lparr>world := w', visited_links := insert l (visited_links s)\<rparr>))"
    by simp
  ultimately show ?thesis by blast
qed

theorem C4_witness:
  "root_loop 0 (web small_site) [''a'', ''b''] state0 =
     OutOfFuel (entered ''a'' 0 (state0\<lparr>visited_links := {''a''}\<rparr>)) \<and>
   deeper_loop 0 (web small_site) 0 0 [''c'', ''b''] state0 =
     OutOfFuel (entered ''c'' 1 (state0\<lparr>world := world0, visited_links := {''c''}\<rparr>)) \<and>
   calls (final_state (scrape_jobs 3 (web small_site) world0)) = [(''a'', 0), (''c'', 1), (''b'', 1)] \<and>
   visited_links (final_state (scrape_jobs 3 (web small_site) world0)) = {''a'', ''b'', ''c''}"
proof -
  have run: "calls (final_state (scrape_jobs 3 (web small_site) world0)) = [(''a'', 0), (''c'', 1), (''b'', 1)]"
    "visited_links (final_state (scrape_jobs 3 (web small_site) world0)) = {''a'', ''b'', ''c''}"
    by code_simp+
  have h1: "length (job_results state0) < MAX_RECORDS \<and> ''a'' \<notin> visited_links state0"
    by (simp add: state0_def MAX_RECORDS_def)
  have h2: "time_time (web small_site) (world state0) = (0, world0) \<and>
      \<not> TIMEOUT_DEEPER_SECONDS < 0 - 0 \<and> ''c'' \<notin> visited_links state0"
    by (simp add: state0_def world0_def web_def TIMEOUT_DEEPER_SECONDS_def)
  show ?thesis
    using C4_visited_set_grows_and_each_address_is_explored_once
      [where s = state0 and env = "web small_site" and l = "''a''" and root_queue = "[''b'']"]
      C4_visited_set_grows_and_each_address_is_explored_once
      [where s = state0 and env = "web small_site" and l = "''c''" and ls = "[''b'']"
        and t = 0 and w' = world0 and t0 = 0 and depth = 0]
      h1 h2 run
    by (simp add: state0_def)
qed





text \<open>
  C5. For every retry-wrapped operation: if the underlying operation fails fewer than
  \<^verbatim>\<open>MAX_RETRY_FAILS\<close> times and then succeeds, the caller receives the success
  value; if it fails \<^verbatim>\<open>MAX_RETRY_FAILS\<close> times, the caller receives the degraded
  result. The code does not do the first: the bodies of both decorated functions catch
  every exception and return the degraded result, so tenacity never sees a failure and
  the decorated function is its body, called once (first two conjuncts). On the site
  whose first reading of the title fails and whose second would succeed, extraction
  returns \<^verbatim>\<open>None\<close> after that one reading, and a second call on the state left
  behind returns the record.
\<close>

theorem C5_no_retry_after_a_failed_reading:
  "extract_job_data env s = extract_job_data_body env s \<and>
   find_job_links env s = find_job_links_body env s \<and>
   fst (extract_job_data (web flaky_site) at_a) = Value None \<and>
   reads (world (snd (extract_job_data (web flaky_site) at_a))) = 1 \<and>
   logged (snd (extract_job_data (web flaky_site) at_a)) = [FailedToExtract] \<and>
   fst (extract_job_data (web flaky_site) (snd (extract_job_data (web flaky_site) at_a))) =
     Value (Some \<lparr>title = ''Job a'', url = ''a''\<rparr>)"
proof -
  have "fst (extract_job_data (web flaky_site) at_a) = Value None"
    "reads (world (snd (extract_job_data (web flaky_site) at_a))) = 1"
    "logged (snd (extract_job_data (web flaky_site) at_a)) = [FailedToExtract]"
    "fst (extract_job_data (web flaky_site) (snd (extract_job_data (web flaky_site) at_a))) =
     Value (Some \<lparr>title = ''Job a'', url = ''a''\<rparr>)"
    by code_simp+
  then show ?thesis
    using extract_job_data_eq [of env s] find_job_links_eq [of env s] by simp
qed

text \<open>
  C7. For every node, an internal page-load timeout does not by itself fail the node:
  after a load timeout the explorer proceeds anyway following a fixed settle delay. As
  stated this fails: the settle delay \<^verbatim>\<open>wait_for_timeout(3000)\<close> is in the same
  \<^verbatim>\<open>try\<close> as the wait that timed out and is skipped. On the site whose ready wait
  times out after 30 seconds the clock after \<^verbatim>\<open>wait_for_page_load\<close> is 30, not 33.
\<close>

theorem C7_counterexample:
  "fst (wait_for_function (web slow_site) (world at_a)) = False \<and>
   clock (world (wait_for_page_load (web slow_site) at_a)) = 30 \<and>
   clock (snd (wait_for_timeout (web slow_site)
     (snd (wait_for_function (web slow_site) (world at_a))))) = 33 \<and>
   world (wait_for_page_load (web slow_site) at_a) \<noteq>
     snd (wait_for_timeout (web slow_site) (snd (wait_for_function (web slow_site) (world at_a))))"
  by (simp add: wait_for_page_load_def web_def slow_site_def small_site_def at_a_def state0_def
      world0_def logging_def)

text \<open>
  C7 as amended. A timeout of the wait for the ready state inside
  \<^verbatim>\<open>wait_for_page_load\<close> does not fail the node: the warning is logged and
  extraction and link discovery go on at once, with no settle delay, on the page as it
  is (first conjunct); and a node whose navigation succeeded never fails, whatever the
  waits do (second conjunct).
\<close>

theorem C7_ready_timeout_is_tolerated_without_settle_delay:
  "(wait_for_function env (world s) = (False, w1) \<longrightarrow>
      wait_for_page_load env s = logging PageLoadTimeout (s\<lparr>world := w1\<rparr>) \<and>
      extract_job_data env s =
        (case inner_text env w1 of
           (None, w) \<Rightarrow>
             (Value None, logging FailedToExtract (logging PageLoadTimeout (s\<lparr>world := w\<rparr>)))
         | (Some t, w) \<Rightarrow>
             (Value (Some \<lparr>title = t, url = page_url env w\<rparr>),
              logging PageLoadTimeout (s\<lparr>world := w\<rparr>))) \<and>
      find_job_links env s =
        (case eval_on_selector_all env w1 of
           (None, w) \<Rightarrow>
             (Value [], logging ErrorFindingLinks (logging PageLoadTimeout (s\<lparr>world := w\<rparr>)))
         | (Some links, w) \<Rightarrow> (Value links, logging PageLoadTimeout (s\<lparr>world := w\<rparr>)))) \<and>
   (goto env link (world s) = (True, w) \<longrightarrow> (\<exists>r. visit_node env link depth s = Inr r))"
proof (intro conjI impI)
  assume a: "wait_for_function env (world s) = (False, w1)"
  then show "wait_for_page_load env s = logging PageLoadTimeout (s\<lparr>world := w1\<rparr>)"
    by (simp add: wait_for_page_load_def)
  from a show "extract_job_data env s =
        (case inner_text env w1 of
           (None, w) \<Rightarrow>
             (Value None, logging FailedToExtract (logging PageLoadTimeout (s\<lparr>world := w\<rparr>)))
         | (Some t, w) \<Rightarrow>
             (Value (Some \<lparr>title = t, url = page_url env w\<rparr>),
              logging PageLoadTimeout (s\<lparr>world := w\<rparr>)))"
    by (simp add: extract_job_data_eq extract_job_data_body_def wait_for_page_load_def
        logging_def Let_def split: prod.split option.split)
  from a show "find_job_links env s =
        (case eval_on_selector_all env w1 of
           (None, w) \<Rightarrow>
             (Value [], logging ErrorFindingLinks (logging PageLoadTimeout (s\<lparr>world := w\<rparr>)))
         | (Some links, w) \<Rightarrow> (Value links, logging PageLoadTimeout (s\<lparr>world := w\<rparr>)))"
    by (simp add: find_job_links_eq find_job_links_body_def wait_for_page_load_def
        logging_def Let_def split: prod.split option.split)
next
  assume g: "goto env link (world s) = (True, w)"
  let ?s0 = "(logging (Visiting depth link) s)\<lparr>world := w\<rparr>"
  obtain v s1 where e: "extract_job_data env ?s0 = (Value v, s1)"
    using extract_job_data_body_value [of env ?s0] by (auto simp: extract_job_data_eq)
  let ?s2 = "save_job env link depth v s1"
  obtain t0 w2 where t: "time_time env (world ?s2) = (t0, w2)"
    by (cases "time_time env (world ?s2)")
  obtain links s3 where f: "find_job_links env (?s2\<lparr>world := w2\<rparr>) = (Value links, s3)"
    using find_job_links_body_value [of env "?s2\<lparr>world := w2\<rparr>"]
    by (auto simp: find_job_links_eq)
  from g e t f show "\<exists>r. visit_node env link depth s = Inr r"
    by (simp add: visit_node_def discover_def logging_def split: prod.split)
qed

theorem C7_witness:
  "wait_for_page_load (web slow_site) at_a =
     logging PageLoadTimeout (at_a\<lparr>world := world0\<lparr>clock := 30, current := ''a''\<rparr>\<rparr>) \<and>
   fst (extract_job_data (web slow_site) at_a) = Value (Some \<lparr>title = ''Job a'', url = ''a''\<rparr>) \<and>
   fst (find_job_links (web slow_site) at_a) = Value [''b'', ''c''] \<and>
   (\<exists>r. visit_node (web slow_site) ''a'' 0 state0 = Inr r)"
proof -
  have h: "wait_for_function (web slow_site) (world at_a) =
      (False, world0\<lparr>clock := 30, current := ''a''\<rparr>)"
    by (simp add: web_def slow_site_def small_site_def at_a_def state0_def world0_def)
  have g: "goto (web slow_site) ''a'' (world state0) = (True, world0\<lparr>clock := 1, current := ''a''\<rparr>)"
    by (simp add: web_def slow_site_def small_site_def state0_def world0_def)
  have a: "wait_for_page_load (web slow_site) at_a =
      logging PageLoadTimeout (at_a\<lparr>world := world0\<lparr>clock := 30, current := ''a''\<rparr>\<rparr>)"
    using C7_ready_timeout_is_tolerated_without_settle_delay
      [where env = "web slow_site" and s = at_a and ?w1.0 = "world0\<lparr>clock := 30, current := ''a''\<rparr>"]
      h
    by blast
  have b: "\<exists>r. visit_node (web slow_site) ''a'' 0 state0 = Inr r"
    using C7_ready_timeout_is_tolerated_without_settle_delay
      [where env = "web slow_site" and s = state0 and link = "''a''" and depth = 0
        and w = "world0\<lparr>clock := 1, current := ''a''\<rparr>"]
      g
    by blast
  have e: "fst (extract_job_data (web slow_site) at_a) = Value (Some \<lparr>title = ''Job a'', url = ''a''\<rparr>)"
    "fst (find_job_links (web slow_site) at_a) = Value [''b'', ''c'']"
    by code_simp+
  from a b e show ?thesis by blast
qed

text \<open>
  C8. When a run ends with an empty ledger (for any reason, including an immediate global
  timeout), the persistence step still runs and produces a valid, header-only artifact:
  a CSV with the column headers and no data row. As stated this fails: the frame built
  from the empty list has no column, so the file has no header. On the site where the
  deadline passes at once the run ends with no record and writes the frame with no
  column and no row.
\<close>

theorem C8_counterexample:
  "scrape_jobs 3 (web stalled_site) world0 =
     Finished
       \<lparr>world = \<lparr>clock = 104, current = ROOT_URL, reads = 0\<rparr>,
        visited_links = {''a'', ''b''}, unique_urls = {}, job_results = [], last_save_time = 0,
        logged = [StartingRoot, OverallTimeout, OverallTimeout, NoJobs],
        calls = [(''a'', 0), (''b'', 0)]\<rparr>
       (Some \<lparr>columns = [], rows = []\<rparr>) \<and>
   columns \<lparr>columns = [], rows = []\<rparr> \<noteq> [''title'', ''url'']"
  by code_simp

text \<open>
  C8 as amended. When the exploration ends with an empty ledger and the browser session
  was opened and closed without an exception, the persistence step still runs, on the
  empty list: the frame written has no column and no row (an empty CSV file, as the
  comment of line 151 says), and it is the artifact unless the write itself raises, which
  is logged.
\<close>

theorem C8_empty_ledger_is_written_as_an_empty_frame:
  "open_session env (world (initial env w0)) = (True, w1) \<and>
   root_exploration n env ((initial env w0)\<lparr>world := w1\<rparr>) = Returned s \<and>
   job_results s = [] \<and>
   close_session env (world s) = (True, w2) \<longrightarrow>
   DataFrame [] = \<lparr>columns = [], rows = []\<rparr> \<and>
   scrape_jobs n env w0 =
     (case to_csv env CSV_OUTPUT \<lparr>columns = [], rows = []\<rparr> w2 of
        (True, w) \<Rightarrow> Finished ((logging NoJobs s)\<lparr>world := w\<rparr>) (Some \<lparr>columns = [], rows = []\<rparr>)
      | (False, w) \<Rightarrow> Finished (logging ErrorWritingCsv ((logging NoJobs s)\<lparr>world := w\<rparr>)) None)"
  by (simp add: scrape_jobs_def persist_def write_to_csv_def DataFrame_def logging_def
      split: prod.split bool.split)

theorem C8_witness:
  "root_exploration 3 (web empty_site) (initial (web empty_site) world0) =
     Returned ((logging StartingRoot (initial (web empty_site) world0))
       \<lparr>world := \<lparr>clock = 5, current = ROOT_URL, reads = 0\<rparr>\<rparr>) \<and>
   scrape_jobs 3 (web empty_site) world0 =
     Finished
       \<lparr>world = \<lparr>clock = 5, current = ROOT_URL, reads = 0\<rparr>,
        visited_links = {}, unique_urls = {}, job_results = [], last_save_time = 0,
        logged = [StartingRoot, NoJobs], calls = []\<rparr>
       (Some \<lparr>columns = [], rows = []\<rparr>)"
proof -
  let ?s = "(logging StartingRoot (initial (web empty_site) world0))
       \<lparr>world := \<lparr>clock = 5, current = ROOT_URL, reads = 0\<rparr>\<rparr>"
  have r: "root_exploration 3 (web empty_site) (initial (web empty_site) world0) = Returned ?s"
    by code_simp
  have h: "open_session (web empty_site) (world (initial (web empty_site) world0)) =
      (True, world (initial (web empty_site) world0)) \<and>
    root_exploration 3 (web empty_site)
      ((initial (web empty_site) world0)\<lparr>world := world (initial (web empty_site) world0)\<rparr>) =
      Returned ?s \<and>
    job_results ?s = [] \<and>
    close_session (web empty_site) (world ?s) = (True, \<lparr>clock = 5, current = ROOT_URL, reads = 0\<rparr>)"
    using r by (simp add: web_def initial_def logging_def)
  have "scrape_jobs 3 (web empty_site) world0 =
     (case to_csv (web empty_site) CSV_OUTPUT \<lparr>columns = [], rows = []\<rparr>
             \<lparr>clock = 5, current = ROOT_URL, reads = 0\<rparr> of
        (True, w) \<Rightarrow> Finished ((logging NoJobs ?s)\<lparr>world := w\<rparr>) (Some \<lparr>columns = [], rows = []\<rparr>)
      | (False, w) \<Rightarrow> Finished (logging ErrorWritingCsv ((logging NoJobs ?s)\<lparr>world := w\<rparr>)) None)"
    using C8_empty_ledger_is_written_as_an_empty_frame
      [where env = "web empty_site" and ?w0.0 = world0 and n = 3 and s = ?s
        and ?w1.0 = "world (initial (web empty_site) world0)"
        and ?w2.0 = "\<lparr>clock = 5, current = ROOT_URL, reads = 0\<rparr>"]
      h
    by blast
  with r show ?thesis
    by (simp add: web_def initial_def logging_def world0_def)
qed

text \<open>
  C6. In the recursive explorer, \<^verbatim>\<open>deeper_start\<close> is recorded as the current time
  after link discovery has returned its candidates and they have been shuffled; then the
  candidates are gone through in shuffled order, the rest being dropped as soon as the
  time since \<^verbatim>\<open>deeper_start\<close> exceeds \<^verbatim>\<open>TIMEOUT_DEEPER_SECONDS\<close>. As stated
  this fails: line 96 reads the clock before line 97 discovers the links. On the site
  whose query takes 50 seconds the start recorded is 0 and the time after discovery and
  shuffle is 54; in the explorer on page a the start is 5, the first check of the loop
  reads 59, and both candidates are dropped although no time has passed since discovery
  returned.
\<close>

theorem C6_counterexample:
  "discover (web lazy_site) at_a =
     Inr (0, [''c'', ''b''], at_a\<lparr>world := \<lparr>clock = 54, current = ''a'', reads = 0\<rparr>\<rparr>) \<and>
   fst (time_time (web lazy_site) \<lparr>clock = 54, current = ''a'', reads = 0\<rparr>) = 54 \<and>
   logged (state_of (process_links_recursively 2 (web lazy_site) ''a'' 0 state0)) =
     [Visiting 0 ''a'', Saved 0 ''a'', DeeperTimeout 0] \<and>
   last_save_time (state_of (process_links_recursively 2 (web lazy_site) ''a'' 0 state0)) = 5 \<and>
   clock (world (state_of (process_links_recursively 2 (web lazy_site) ''a'' 0 state0))) = 59 \<and>
   visited_links (state_of (process_links_recursively 2 (web lazy_site) ''a'' 0 state0)) = {}"
  by code_simp

text \<open>
  C6 as amended. \<^verbatim>\<open>deeper_start\<close> is the time read before link discovery runs, so
  the time discovery and shuffle take counts against the budget; the candidates are a
  permutation of the links discovered (first conjunct). Then, in that order: once the
  time since \<^verbatim>\<open>deeper_start\<close> exceeds the budget the candidate and all that remain
  are dropped, the state changed by the log line only (second); before that an unvisited
  candidate is added to the visited set and explored at depth + 1, and the loop goes on
  when that returns (third); a visited one is passed over (fourth). Fifth: the explorer
  whose deadline has not passed, whose page loads and whose extraction returns, reads
  the clock right after the save step, then discovers the links and shuffles them, and
  runs its loop on the shuffled links with the time it read before the discovery.
\<close>

theorem C6_deeper_budget_starts_before_link_discovery:
  "(discover env s = Inr (t0, links, s') \<longrightarrow>
      t0 = fst (time_time env (world s)) \<and>
      (\<exists>found s1. find_job_links env (s\<lparr>world := snd (time_time env (world s))\<rparr>)
                     = (Value found, s1) \<and>
                   mset links = mset found)) \<and>
   (time_time env (world s) = (t, w) \<and> TIMEOUT_DEEPER_SECONDS < t - t0 \<longrightarrow>
      deeper_loop n env depth t0 (l # rest) s =
        Returned (logging (DeeperTimeout depth) (s\<lparr>world := w\<rparr>))) \<and>
   (time_time env (world s) = (t, w) \<and> \<not> TIMEOUT_DEEPER_SECONDS < t - t0 \<and>
      l \<notin> visited_links s \<longrightarrow>
      deeper_loop n env depth t0 (l # rest) s =
        (case process_links_recursively n env l (depth + 1)
                (s\<lparr>world := w, visited_links := insert l (visited_links s)\<rparr>) of
           OutOfFuel s'' \<Rightarrow> OutOfFuel s''
         | Returned s'' \<Rightarrow> deeper_loop n env depth t0 rest s'')) \<and>
   (time_time env (world s) = (t, w) \<and> \<not> TIMEOUT_DEEPER_SECONDS < t - t0 \<and>
      l \<in> visited_links s \<longrightarrow>
      deeper_loop n env depth t0 (l # rest) s = deeper_loop n env depth t0 rest (s\<lparr>world := w\<rparr>)) \<and>
   (time_time env (world s) = (t, w) \<and> \<not> TIMEOUT_TOTAL_SECONDS < t - last_save_time s \<and>
      goto env link w = (True, w1) \<and>
      extract_job_data env ((logging (Visiting depth link) (entered link depth s))\<lparr>world := w1\<rparr>)
        = (Value job_data, s1) \<and>
      time_time env (world (save_job env link depth job_data s1)) = (t0, w2) \<and>
      find_job_links env ((save_job env link depth job_data s1)\<lparr>world := w2\<rparr>)
        = (Value found, s2) \<and>
      shuffle env found (world s2) = (links, w3) \<longrightarrow>
      process_links_recursively (Suc n) env link depth s =
        deeper_loop n env depth t0 links (s2\<lparr>world := w3\<rparr>))"
proof (intro conjI impI)
  assume d: "discover env s = Inr (t0, links, s')"
  obtain t1 w1 where t: "time_time env (world s) = (t1, w1)"
    by (cases "time_time env (world s)")
  obtain r s1 where f: "find_job_links env (s\<lparr>world := w1\<rparr>) = (r, s1)"
    by (cases "find_job_links env (s\<lparr>world := w1\<rparr>)")
  from d t f obtain found where r: "r = Value found"
    by (cases r) (simp_all add: discover_def)
  obtain shuffled w2 where sh: "shuffle env found (world s1) = (shuffled, w2)"
    by (cases "shuffle env found (world s1)")
  from d t f r sh have "t0 = t1" and l: "links = shuffled"
    by (simp_all add: discover_def)
  with t show "t0 = fst (time_time env (world s))" by simp
  have "mset shuffled = mset found"
    using mset_shuffle [of env found "world s1"] sh by simp
  with l t f r
  show "\<exists>found s1. find_job_links env (s\<lparr>world := snd (time_time env (world s))\<rparr>)
                     = (Value found, s1) \<and>
                   mset links = mset found"
    by simp
next
  assume "time_time env (world s) = (t, w) \<and> \<not> TIMEOUT_TOTAL_SECONDS < t - last_save_time s \<and>
      goto env link w = (True, w1) \<and>
      extract_job_data env ((logging (Visiting depth link) (entered link depth s))\<lparr>world := w1\<rparr>)
        = (Value job_data, s1) \<and>
      time_time env (world (save_job env link depth job_data s1)) = (t0, w2) \<and>
      find_job_links env ((save_job env link depth job_data s1)\<lparr>world := w2\<rparr>)
        = (Value found, s2) \<and>
      shuffle env found (world s2) = (links, w3)"
  then show "process_links_recursively (Suc n) env link depth s =
        deeper_loop n env depth t0 links (s2\<lparr>world := w3\<rparr>)"
    by (elim conjE) (rule explorer_hands_over; assumption)
qed simp_all

theorem C6_witness:
  "discover (web lazy_site) at_a =
     Inr (0, [''c'', ''b''], at_a\<lparr>world := \<lparr>clock = 54, current = ''a'', reads = 0\<rparr>\<rparr>) \<and>
   (0::int) = fst (time_time (web lazy_site) (world at_a)) \<and>
   deeper_loop 1 (web lazy_site) 0 0 [''c'', ''b'']
       (at_a\<lparr>world := \<lparr>clock = 54, current = ''a'', reads = 0\<rparr>\<rparr>) =
     Returned (logging (DeeperTimeout 0)
       (at_a\<lparr>world := \<lparr>clock = 54, current = ''a'', reads = 0\<rparr>\<rparr>)) \<and>
   deeper_loop 0 (web small_site) 0 0 [''c'', ''b''] state0 =
     OutOfFuel (entered ''c'' 1 (state0\<lparr>visited_links := {''c''}\<rparr>)) \<and>
   deeper_loop 0 (web small_site) 0 0 [''c''] (state0\<lparr>visited_links := {''c''}\<rparr>) =
     Returned (state0\<lparr>visited_links := {''c''}\<rparr>) \<and>
   process_links_recursively 2 (web lazy_site) ''a'' 0 state0 =
     deeper_loop 1 (web lazy_site) 0 5 [''c'', ''b'']
       \<lparr>world = \<lparr>clock = 59, current = ''a'', reads = 1\<rparr>, visited_links = {},
        unique_urls = {''a''}, job_results = [\<lparr>title = ''Job a'', url = ''a''\<rparr>],
        last_save_time = 5, logged = [Visiting 0 ''a'', Saved 0 ''a''], calls = [(''a'', 0)]\<rparr> \<and>
   process_links_recursively 2 (web lazy_site) ''a'' 0 state0 =
     Returned
       \<lparr>world = \<lparr>clock = 59, current = ''a'', reads = 1\<rparr>, visited_links = {},
        unique_urls = {''a''}, job_results = [\<lparr>title = ''Job a'', url = ''a''\<rparr>],
        last_save_time = 5, logged = [Visiting 0 ''a'', Saved 0 ''a'', DeeperTimeout 0],
        calls = [(''a'', 0)]\<rparr>"
proof -
  let ?s54 = "at_a\<lparr>world := \<lparr>clock = 54, current = ''a'', reads = 0\<rparr>\<rparr>"
  let ?sc = "state0\<lparr>visited_links := {''c''}\<rparr>"
  let ?ja = "\<lparr>title = ''Job a'', url = ''a''\<rparr>"
  let ?w1 = "\<lparr>clock = 1, current = ''a'', reads = 0\<rparr>"
  let ?w5 = "\<lparr>clock = 5, current = ''a'', reads = 1\<rparr>"
  let ?w59 = "\<lparr>clock = 59, current = ''a'', reads = 1\<rparr>"
  let ?s1 = "\<lparr>world = ?w5, visited_links = {}, unique_urls = {}, job_results = [],
        last_save_time = 0, logged = [Visiting 0 ''a''], calls = [(''a'', 0)]\<rparr>"
  let ?s2 = "\<lparr>world = ?w59, visited_links = {}, unique_urls = {''a''}, job_results = [?ja],
        last_save_time = 5, logged = [Visiting 0 ''a'', Saved 0 ''a''], calls = [(''a'', 0)]\<rparr>"
  have d: "discover (web lazy_site) at_a = Inr (0, [''c'', ''b''], ?s54)"
    by code_simp
  have h2: "time_time (web lazy_site) (world ?s54) = (54, \<lparr>clock = 54, current = ''a'', reads = 0\<rparr>) \<and>
      TIMEOUT_DEEPER_SECONDS < 54 - 0"
    by (simp add: web_def TIMEOUT_DEEPER_SECONDS_def)
  have h3: "time_time (web small_site) (world state0) = (0, world0) \<and>
      \<not> TIMEOUT_DEEPER_SECONDS < 0 - 0 \<and> ''c'' \<notin> visited_links state0"
    by (simp add: web_def state0_def world0_def TIMEOUT_DEEPER_SECONDS_def)
  have h4: "time_time (web small_site) (world ?sc) = (0, world0) \<and>
      \<not> TIMEOUT_DEEPER_SECONDS < 0 - 0 \<and> ''c'' \<in> visited_links ?sc"
    by (simp add: web_def state0_def world0_def TIMEOUT_DEEPER_SECONDS_def)
  have h5: "time_time (web lazy_site) (world state0) = (0, world0) \<and>
      \<not> TIMEOUT_TOTAL_SECONDS < 0 - last_save_time state0 \<and>
      goto (web lazy_site) ''a'' world0 = (True, ?w1) \<and>
      extract_job_data (web lazy_site)
          ((logging (Visiting 0 ''a'') (entered ''a'' 0 state0))\<lparr>world := ?w1\<rparr>)
        = (Value (Some ?ja), ?s1) \<and>
      time_time (web lazy_site) (world (save_job (web lazy_site) ''a'' 0 (Some ?ja) ?s1)) = (5, ?w5) \<and>
      find_job_links (web lazy_site)
          ((save_job (web lazy_site) ''a'' 0 (Some ?ja) ?s1)\<lparr>world := ?w5\<rparr>)
        = (Value [''b'', ''c''], ?s2) \<and>
      shuffle (web lazy_site) [''b'', ''c''] (world ?s2) = ([''c'', ''b''], ?w59)"
    by code_simp
  have h6: "time_time (web lazy_site) (world ?s2) = (59, ?w59) \<and> TIMEOUT_DEEPER_SECONDS < 59 - 5"
    by (simp add: web_def TIMEOUT_DEEPER_SECONDS_def)
  have c1: "(0::int) = fst (time_time (web lazy_site) (world at_a))"
    using C6_deeper_budget_starts_before_link_discovery
      [where env = "web lazy_site" and s = at_a and ?t0.0 = 0 and links = "[''c'', ''b'']"
        and s' = ?s54]
      d
    by blast
  have c2: "deeper_loop 1 (web lazy_site) 0 0 [''c'', ''b''] ?s54 =
      Returned (logging (DeeperTimeout 0)
        (?s54\<lparr>world := \<lparr>clock = 54, current = ''a'', reads = 0\<rparr>\<rparr>))"
    using C6_deeper_budget_starts_before_link_discovery
      [where env = "web lazy_site" and s = ?s54 and ?t0.0 = 0 and t = 54
        and w = "\<lparr>clock = 54, current = ''a'', reads = 0\<rparr>" and n = 1 and depth = 0
        and l = "''c''" and rest = "[''b'']"]
      h2
    by blast
  have c3: "deeper_loop 0 (web small_site) 0 0 [''c'', ''b''] state0 =
      (case process_links_recursively 0 (web small_site) ''c'' (0 + 1)
              (state0\<lparr>world := world0, visited_links := insert ''c'' (visited_links state0)\<rparr>) of
         OutOfFuel s'' \<Rightarrow> OutOfFuel s''
       | Returned s'' \<Rightarrow> deeper_loop 0 (web small_site) 0 0 [''b''] s'')"
    using C6_deeper_budget_starts_before_link_discovery
      [where env = "web small_site" and s = state0 and ?t0.0 = 0 and t = 0 and w = world0
        and n = 0 and depth = 0 and l = "''c''" and rest = "[''b'']"]
      h3
    by blast
  have c4: "deeper_loop 0 (web small_site) 0 0 [''c''] ?sc =
      deeper_loop 0 (web small_site) 0 0 [] (?sc\<lparr>world := world0\<rparr>)"
    using C6_deeper_budget_starts_before_link_discovery
      [where env = "web small_site" and s = ?sc and ?t0.0 = 0 and t = 0 and w = world0
        and n = 0 and depth = 0 and l = "''c''" and rest = "[]"]
      h4
    by blast
  have c5: "process_links_recursively (Suc 1) (web lazy_site) ''a'' 0 state0 =
      deeper_loop 1 (web lazy_site) 0 5 [''c'', ''b''] (?s2\<lparr>world := ?w59\<rparr>)"
    using C6_deeper_budget_starts_before_link_discovery
      [where env = "web lazy_site" and s = state0 and t = 0 and w = world0 and link = "''a''"
        and depth = 0 and ?w1.0 = ?w1 and job_data = "Some ?ja" and ?s1.0 = ?s1
        and ?t0.0 = 5 and ?w2.0 = ?w5 and found = "[''b'', ''c'']" and ?s2.0 = ?s2
        and links = "[''c'', ''b'']" and ?w3.0 = ?w59 and n = 1]
      h5
    by blast
  have c6: "deeper_loop 1 (web lazy_site) 0 5 [''c'', ''b''] ?s2 =
      Returned (logging (DeeperTimeout 0) (?s2\<lparr>world := ?w59\<rparr>))"
    using C6_deeper_budget_starts_before_link_discovery
      [where env = "web lazy_site" and s = ?s2 and ?t0.0 = 5 and t = 59 and w = ?w59
        and n = 1 and depth = 0 and l = "''c''" and rest = "[''b'']"]
      h6
    by blast
  have c5': "process_links_recursively 2 (web lazy_site) ''a'' 0 state0 =
      deeper_loop 1 (web lazy_site) 0 5 [''c'', ''b''] ?s2"
    using c5 by (simp add: numeral_2_eq_2 del: process_links_recursively.simps)
  have c6': "process_links_recursively 2 (web lazy_site) ''a'' 0 state0 =
      Returned (logging (DeeperTimeout 0) ?s2)"
    using c5' c6 by (simp del: process_links_recursively.simps)
  have c7: "logging (DeeperTimeout 0) ?s2 =
      \<lparr>world = ?w59, visited_links = {}, unique_urls = {''a''}, job_results = [?ja],
        last_save_time = 5, logged = [Visiting 0 ''a'', Saved 0 ''a'', DeeperTimeout 0],
        calls = [(''a'', 0)]\<rparr>"
    by (simp add: logging_def)
  have old: "deeper_loop 0 (web small_site) 0 0 [''c'', ''b''] state0 =
     OutOfFuel (entered ''c'' 1 (state0\<lparr>visited_links := {''c''}\<rparr>)) \<and>
   deeper_loop 0 (web small_site) 0 0 [''c''] (state0\<lparr>visited_links := {''c''}\<rparr>) =
     Returned (state0\<lparr>visited_links := {''c''}\<rparr>)"
    using c3 c4 by (simp add: state0_def entered_def)
  have c2': "deeper_loop 1 (web lazy_site) 0 0 [''c'', ''b''] ?s54 =
      Returned (logging (DeeperTimeout 0) ?s54)"
    using c2 by (simp del: deeper_loop.simps)
  from d c1 c2' old c5' c6' c7 show ?thesis
    by (simp del: process_links_recursively.simps deeper_loop.simps)
qed

text \<open>
  C3. When the recursive explorer is entered and the time since the last save exceeds
  \<^verbatim>\<open>TIMEOUT_TOTAL_SECONDS\<close>, the entire run aborts immediately: the check
  short-circuits all pending recursion, and after it fires no new invocation of the
  explorer begins. As stated this fails: line 80 returns from the one invocation, and
  the loops of lines 100 and 132 go on. On the site whose every navigation takes 100
  seconds the root page links to a and b, and the deadline has passed when the root loop
  starts. The check fires in the invocation on a; then b is added to the visited set and
  the explorer is invoked on b, where the check fires a second time. First three
  conjuncts: the root exploration and the run, with two invocations in the history and
  two warnings in the log. Fourth: the invocation on a, where the check fires. Fifth:
  the root loop from the state that invocation returned, which invokes the explorer
  on b.
\<close>

theorem C3_counterexample:
  "root_exploration 1 (web stalled_site) (initial (web stalled_site) world0) =
     Returned
       \<lparr>world = \<lparr>clock = 104, current = ROOT_URL, reads = 0\<rparr>,
        visited_links = {''a'', ''b''}, unique_urls = {}, job_results = [],
        last_save_time = 0, logged = [StartingRoot, OverallTimeout, OverallTimeout],
        calls = [(''a'', 0), (''b'', 0)]\<rparr> \<and>
   calls (final_state (scrape_jobs 1 (web stalled_site) world0)) = [(''a'', 0), (''b'', 0)] \<and>
   logged (final_state (scrape_jobs 1 (web stalled_site) world0)) =
     [StartingRoot, OverallTimeout, OverallTimeout, NoJobs] \<and>
   process_links_recursively 1 (web stalled_site) ''a'' 0 (late_state\<lparr>visited_links := {''a''}\<rparr>) =
     Returned (late_state\<lparr>visited_links := {''a''}, logged := [StartingRoot, OverallTimeout],
       calls := [(''a'', 0)]\<rparr>) \<and>
   root_loop 1 (web stalled_site) [''b'']
       (late_state\<lparr>visited_links := {''a''}, logged := [StartingRoot, OverallTimeout],
          calls := [(''a'', 0)]\<rparr>) =
     Returned (late_state\<lparr>visited_links := {''a'', ''b''},
       logged := [StartingRoot, OverallTimeout, OverallTimeout],
       calls := [(''a'', 0), (''b'', 0)]\<rparr>)"
  by code_simp

text \<open>
  C3 as amended. The check ends the one invocation: an explorer entered after the
  deadline returns at once with the warning logged and no page visited (first
  conjunct). The pending loops are not cut short: below the cap the root loop adds the
  next unvisited address to the visited set, invokes the explorer on it and goes on with
  the rest of the queue (second), and so does the loop of a node within its own budget
  (third). Fourth: if the clock never goes back, then from any state in which the
  deadline has passed the explorer, the loop of a node and the root loop all return,
  the crawl idle in between (no record saved, the time of the last save unchanged, only
  timeout warnings logged, only the clock read), and the deadline has passed in the
  state they return.
\<close>

theorem C3_deadline_check_returns_each_invocation_at_once:
  "(time_time env (world s) = (t, w) \<and> TIMEOUT_TOTAL_SECONDS < t - last_save_time s \<longrightarrow>
      process_links_recursively (Suc n) env link depth s =
        Returned (logging OverallTimeout ((entered link depth s)\<lparr>world := w\<rparr>))) \<and>
   (length (job_results s) < MAX_RECORDS \<and> l \<notin> visited_links s \<and>
      time_time env (world s) = (t, w) \<and> TIMEOUT_TOTAL_SECONDS < t - last_save_time s \<longrightarrow>
      root_loop (Suc n) env (l # root_queue) s =
        root_loop (Suc n) env root_queue
          (logging OverallTimeout
            ((entered l 0 (s\<lparr>visited_links := insert l (visited_links s)\<rparr>))\<lparr>world := w\<rparr>))) \<and>
   (time_time env (world s) = (t, w) \<and> \<not> TIMEOUT_DEEPER_SECONDS < t - t0 \<and>
      l \<notin> visited_links s \<and>
      time_time env w = (t', w') \<and> TIMEOUT_TOTAL_SECONDS < t' - last_save_time s \<longrightarrow>
      deeper_loop (Suc n) env depth t0 (l # rest) s =
        deeper_loop (Suc n) env depth t0 rest
          (logging OverallTimeout
            ((entered l (depth + 1)
               (s\<lparr>world := w, visited_links := insert l (visited_links s)\<rparr>))\<lparr>world := w'\<rparr>))) \<and>
   (clock_never_back env \<and> deadline_passed env s \<longrightarrow>
      process_links_recursively (Suc n) env link depth s =
        Returned (state_of (process_links_recursively (Suc n) env link depth s)) \<and>
      idle env s (state_of (process_links_recursively (Suc n) env link depth s)) \<and>
      deadline_passed env (state_of (process_links_recursively (Suc n) env link depth s)) \<and>
      deeper_loop (Suc n) env depth t0 ls s =
        Returned (state_of (deeper_loop (Suc n) env depth t0 ls s)) \<and>
      idle env s (state_of (deeper_loop (Suc n) env depth t0 ls s)) \<and>
      deadline_passed env (state_of (deeper_loop (Suc n) env depth t0 ls s)) \<and>
      root_loop (Suc n) env root_queue s =
        Returned (state_of (root_loop (Suc n) env root_queue s)) \<and>
      idle env s (state_of (root_loop (Suc n) env root_queue s)) \<and>
      deadline_passed env (state_of (root_loop (Suc n) env root_queue s)))"
proof -
  have c1: "time_time env (world s) = (t, w) \<and> TIMEOUT_TOTAL_SECONDS < t - last_save_time s \<longrightarrow>
      process_links_recursively (Suc n) env link depth s =
        Returned (logging OverallTimeout ((entered link depth s)\<lparr>world := w\<rparr>))"
    by simp
  have c2: "length (job_results s) < MAX_RECORDS \<and> l \<notin> visited_links s \<and>
      time_time env (world s) = (t, w) \<and> TIMEOUT_TOTAL_SECONDS < t - last_save_time s \<longrightarrow>
      root_loop (Suc n) env (l # root_queue) s =
        root_loop (Suc n) env root_queue
          (logging OverallTimeout
            ((entered l 0 (s\<lparr>visited_links := insert l (visited_links s)\<rparr>))\<lparr>world := w\<rparr>))"
    by simp
  have c3: "time_time env (world s) = (t, w) \<and> \<not> TIMEOUT_DEEPER_SECONDS < t - t0 \<and>
      l \<notin> visited_links s \<and>
      time_time env w = (t', w') \<and> TIMEOUT_TOTAL_SECONDS < t' - last_save_time s \<longrightarrow>
      deeper_loop (Suc n) env depth t0 (l # rest) s =
        deeper_loop (Suc n) env depth t0 rest
          (logging OverallTimeout
            ((entered l (depth + 1)
               (s\<lparr>world := w, visited_links := insert l (visited_links s)\<rparr>))\<lparr>world := w'\<rparr>))"
    by simp
  have c4: "clock_never_back env \<and> deadline_passed env s \<longrightarrow>
      process_links_recursively (Suc n) env link depth s =
        Returned (state_of (process_links_recursively (Suc n) env link depth s)) \<and>
      idle env s (state_of (process_links_recursively (Suc n) env link depth s)) \<and>
      deadline_passed env (state_of (process_links_recursively (Suc n) env link depth s)) \<and>
      deeper_loop (Suc n) env depth t0 ls s =
        Returned (state_of (deeper_loop (Suc n) env depth t0 ls s)) \<and>
      idle env s (state_of (deeper_loop (Suc n) env depth t0 ls s)) \<and>
      deadline_passed env (state_of (deeper_loop (Suc n) env depth t0 ls s)) \<and>
      root_loop (Suc n) env root_queue s =
        Returned (state_of (root_loop (Suc n) env root_queue s)) \<and>
      idle env s (state_of (root_loop (Suc n) env root_queue s)) \<and>
      deadline_passed env (state_of (root_loop (Suc n) env root_queue s))"
  proof
    assume a: "clock_never_back env \<and> deadline_passed env s"
    then have c: "clock_never_back env" and d: "deadline_passed env s" by simp_all
    from idle_explorer [OF c d, of n link depth] obtain s1 where
      e: "process_links_recursively (Suc n) env link depth s = Returned s1"
        "idle env s s1" "deadline_passed env s1"
      by blast
    from idle_deeper_loop [OF c d, of n depth t0 ls] obtain s2 where
      dl: "deeper_loop (Suc n) env depth t0 ls s = Returned s2"
        "idle env s s2" "deadline_passed env s2"
      by blast
    from idle_root_loop [OF c d, of n root_queue] obtain s3 where
      rl: "root_loop (Suc n) env root_queue s = Returned s3"
        "idle env s s3" "deadline_passed env s3"
      by blast
    from e dl rl
    show "process_links_recursively (Suc n) env link depth s =
        Returned (state_of (process_links_recursively (Suc n) env link depth s)) \<and>
      idle env s (state_of (process_links_recursively (Suc n) env link depth s)) \<and>
      deadline_passed env (state_of (process_links_recursively (Suc n) env link depth s)) \<and>
      deeper_loop (Suc n) env depth t0 ls s =
        Returned (state_of (deeper_loop (Suc n) env depth t0 ls s)) \<and>
      idle env s (state_of (deeper_loop (Suc n) env depth t0 ls s)) \<and>
      deadline_passed env (state_of (deeper_loop (Suc n) env depth t0 ls s)) \<and>
      root_loop (Suc n) env root_queue s =
        Returned (state_of (root_loop (Suc n) env root_queue s)) \<and>
      idle env s (state_of (root_loop (Suc n) env root_queue s)) \<and>
      deadline_passed env (state_of (root_loop (Suc n) env root_queue s))"
      by (simp del: process_links_recursively.simps deeper_loop.simps root_loop.simps)
  qed
  from c1 c2 c3 c4 show ?thesis by blast
qed

theorem C3_witness:
  "process_links_recursively 1 (web stalled_site) ''a'' 0 late_state =
     Returned (late_state\<lparr>logged := [StartingRoot, OverallTimeout], calls := [(''a'', 0)]\<rparr>) \<and>
   root_loop 1 (web stalled_site) [''a'', ''b''] late_state =
     root_loop 1 (web stalled_site) [''b'']
       (late_state\<lparr>visited_links := {''a''}, logged := [StartingRoot, OverallTimeout],
          calls := [(''a'', 0)]\<rparr>) \<and>
   deeper_loop 1 (web stalled_site) 0 104 [''c'', ''b''] late_state =
     deeper_loop 1 (web stalled_site) 0 104 [''b'']
       (late_state\<lparr>visited_links := {''c''}, logged := [StartingRoot, OverallTimeout],
          calls := [(''c'', 1)]\<rparr>) \<and>
   root_loop 1 (web stalled_site) [''a'', ''b''] late_state =
     Returned (late_state\<lparr>visited_links := {''a'', ''b''},
       logged := [StartingRoot, OverallTimeout, OverallTimeout],
       calls := [(''a'', 0), (''b'', 0)]\<rparr>) \<and>
   idle (web stalled_site) late_state
     (late_state\<lparr>visited_links := {''a'', ''b''},
       logged := [StartingRoot, OverallTimeout, OverallTimeout],
       calls := [(''a'', 0), (''b'', 0)]\<rparr>) \<and>
   deadline_passed (web stalled_site)
     (late_state\<lparr>visited_links := {''a'', ''b''},
       logged := [StartingRoot, OverallTimeout, OverallTimeout],
       calls := [(''a'', 0), (''b'', 0)]\<rparr>)"
proof -
  let ?env = "web stalled_site"
  let ?w = "\<lparr>clock = 104, current = ROOT_URL, reads = 0\<rparr>"
  let ?end = "late_state\<lparr>visited_links := {''a'', ''b''},
       logged := [StartingRoot, OverallTimeout, OverallTimeout],
       calls := [(''a'', 0), (''b'', 0)]\<rparr>"
  have h1: "time_time ?env (world late_state) = (104, ?w) \<and>
      TIMEOUT_TOTAL_SECONDS < 104 - last_save_time late_state"
    by (simp add: web_def late_state_def state0_def TIMEOUT_TOTAL_SECONDS_def)
  have h2: "length (job_results late_state) < MAX_RECORDS \<and> ''a'' \<notin> visited_links late_state \<and>
      time_time ?env (world late_state) = (104, ?w) \<and>
      TIMEOUT_TOTAL_SECONDS < 104 - last_save_time late_state"
    by (simp add: web_def late_state_def state0_def TIMEOUT_TOTAL_SECONDS_def MAX_RECORDS_def)
  have h3: "time_time ?env (world late_state) = (104, ?w) \<and>
      \<not> TIMEOUT_DEEPER_SECONDS < 104 - 104 \<and> ''c'' \<notin> visited_links late_state \<and>
      time_time ?env ?w = (104, ?w) \<and>
      TIMEOUT_TOTAL_SECONDS < 104 - last_save_time late_state"
    by (simp add: web_def late_state_def state0_def TIMEOUT_TOTAL_SECONDS_def
        TIMEOUT_DEEPER_SECONDS_def)
  have h4: "clock_never_back ?env \<and> deadline_passed ?env late_state"
    by (simp add: clock_never_back_def deadline_passed_def web_def late_state_def state0_def
        TIMEOUT_TOTAL_SECONDS_def)
  have c1: "process_links_recursively (Suc 0) ?env ''a'' 0 late_state =
      Returned (logging OverallTimeout ((entered ''a'' 0 late_state)\<lparr>world := ?w\<rparr>))"
    using C3_deadline_check_returns_each_invocation_at_once
      [where env = ?env and s = late_state and t = 104 and w = ?w and n = 0
        and link = "''a''" and depth = 0]
      h1
    by blast
  have c2: "root_loop (Suc 0) ?env (''a'' # [''b'']) late_state =
      root_loop (Suc 0) ?env [''b'']
        (logging OverallTimeout
          ((entered ''a'' 0 (late_state\<lparr>visited_links := insert ''a'' (visited_links late_state)\<rparr>))
             \<lparr>world := ?w\<rparr>))"
    using C3_deadline_check_returns_each_invocation_at_once
      [where env = ?env and s = late_state and t = 104 and w = ?w and n = 0
        and l = "''a''" and root_queue = "[''b'']"]
      h2
    by blast
  have c3: "deeper_loop (Suc 0) ?env 0 104 (''c'' # [''b'']) late_state =
      deeper_loop (Suc 0) ?env 0 104 [''b'']
        (logging OverallTimeout
          ((entered ''c'' (0 + 1)
             (late_state\<lparr>world := ?w, visited_links := insert ''c'' (visited_links late_state)\<rparr>))
             \<lparr>world := ?w\<rparr>))"
    using C3_deadline_check_returns_each_invocation_at_once
      [where env = ?env and s = late_state and t = 104 and w = ?w and n = 0
        and l = "''c''" and rest = "[''b'']" and ?t0.0 = 104 and depth = 0
        and t' = 104 and w' = ?w]
      h3
    by blast
  have c4: "root_loop (Suc 0) ?env [''a'', ''b''] late_state =
        Returned (state_of (root_loop (Suc 0) ?env [''a'', ''b''] late_state)) \<and>
      idle ?env late_state (state_of (root_loop (Suc 0) ?env [''a'', ''b''] late_state)) \<and>
      deadline_passed ?env (state_of (root_loop (Suc 0) ?env [''a'', ''b''] late_state))"
    using C3_deadline_check_returns_each_invocation_at_once
      [where env = ?env and s = late_state and n = 0 and root_queue = "[''a'', ''b'']"]
      h4
    by blast
  have v: "state_of (root_loop 1 ?env [''a'', ''b''] late_state) = ?end"
    by code_simp
  have e1: "logging OverallTimeout ((entered ''a'' 0 late_state)\<lparr>world := ?w\<rparr>) =
      late_state\<lparr>logged := [StartingRoot, OverallTimeout], calls := [(''a'', 0)]\<rparr>"
    by (simp add: logging_def entered_def late_state_def state0_def)
  have e2: "logging OverallTimeout
          ((entered ''a'' 0 (late_state\<lparr>visited_links := insert ''a'' (visited_links late_state)\<rparr>))
             \<lparr>world := ?w\<rparr>) =
      late_state\<lparr>visited_links := {''a''}, logged := [StartingRoot, OverallTimeout],
          calls := [(''a'', 0)]\<rparr>"
    by (simp add: logging_def entered_def late_state_def state0_def)
  have e3: "logging OverallTimeout
          ((entered ''c'' (0 + 1)
             (late_state\<lparr>world := ?w, visited_links := insert ''c'' (visited_links late_state)\<rparr>))
             \<lparr>world := ?w\<rparr>) =
      late_state\<lparr>visited_links := {''c''}, logged := [StartingRoot, OverallTimeout],
          calls := [(''c'', 1)]\<rparr>"
    by (simp add: logging_def entered_def late_state_def state0_def)
  from c1 e1 have r1: "process_links_recursively 1 ?env ''a'' 0 late_state =
      Returned (late_state\<lparr>logged := [StartingRoot, OverallTimeout], calls := [(''a'', 0)]\<rparr>)"
    by (simp del: process_links_recursively.simps)
  from c2 e2 have r2: "root_loop 1 ?env [''a'', ''b''] late_state =
     root_loop 1 ?env [''b'']
       (late_state\<lparr>visited_links := {''a''}, logged := [StartingRoot, OverallTimeout],
          calls := [(''a'', 0)]\<rparr>)"
    by (simp del: root_loop.simps)
  from c3 e3 have r3: "deeper_loop 1 ?env 0 104 [''c'', ''b''] late_state =
     deeper_loop 1 ?env 0 104 [''b'']
       (late_state\<lparr>visited_links := {''c''}, logged := [StartingRoot, OverallTimeout],
          calls := [(''c'', 1)]\<rparr>)"
    by (simp del: deeper_loop.simps)
  from c4 v have r4: "root_loop 1 ?env [''a'', ''b''] late_state = Returned ?end"
    "idle ?env late_state ?end" "deadline_passed ?env ?end"
    by (simp_all del: root_loop.simps)
  from r1 r2 r3 r4 show ?thesis by blast
qed

end
